theory Spec2Isabelle
  imports Complex_Main
begin

section \<open>Values of the host language\<close>

text \<open>
  An error object: its \<open>name\<close> and its \<open>message\<close>. \<open>toString\<close> is
  \<open>Error.prototype.toString\<close>, which \<open>run().catch\<close> applies before \<open>core.setFailed\<close>.
\<close>

datatype error = Err (err_name: string) (err_message: string)

definition toString :: "error \<Rightarrow> string" where
  "toString err =
     (if err_name err = [] then err_message err
      else if err_message err = [] then err_name err
      else err_name err @ '': '' @ err_message err)"

text \<open>
  A number of the host language as the program uses it: tested for \<open>NaN\<close>, for truthiness
  and compared with the counter. A finite double is the rational it denotes; the two zeros
  are one value, since both are falsy and compare alike.
\<close>

datatype number = NaN | Num rat | PosInf | NegInf

fun isNaN :: "number \<Rightarrow> bool" where
  "isNaN NaN = True"
| "isNaN (Num q) = False"
| "isNaN PosInf = False"
| "isNaN NegInf = False"

fun truthy :: "number \<Rightarrow> bool" where
  "truthy NaN = False"
| "truthy (Num q) = (q \<noteq> 0)"
| "truthy PosInf = True"
| "truthy NegInf = True"

text \<open>\<open>n > c\<close> for a number \<open>n\<close> and the counter \<open>c\<close>, a non-negative integer.\<close>

fun gt_counter :: "number \<Rightarrow> nat \<Rightarrow> bool" where
  "gt_counter NaN c = False"
| "gt_counter (Num q) c = (of_nat c < q)"
| "gt_counter PosInf c = True"
| "gt_counter NegInf c = False"

text \<open>
  A moment: milliseconds since the epoch, or \<open>None\<close> for an invalid moment.
  \<open>a.isBefore(b)\<close> is false as soon as one of the two is invalid.
\<close>

type_synonym moment = "int option"

definition isBefore :: "moment \<Rightarrow> moment \<Rightarrow> bool" where
  "isBefore a b =
     (case a of None \<Rightarrow> False
      | Some x \<Rightarrow> (case b of None \<Rightarrow> False | Some y \<Rightarrow> x < y))"

text \<open>\<open>str.split(sep)\<close> for a separator of one character: never empty.\<close>

fun split_js :: "char \<Rightarrow> string \<Rightarrow> string list" where
  "split_js sep [] = [[]]"
| "split_js sep (c # cs) =
     (if c = sep then [] # split_js sep cs
      else (case split_js sep cs of [] \<Rightarrow> [[c]] | w # ws \<Rightarrow> (c # w) # ws))"

text \<open>\<open>const [a, b] = xs\<close>: a missing element is \<open>undefined\<close>, here \<open>None\<close>.\<close>

fun destructure2 :: "'a list \<Rightarrow> 'a option \<times> 'a option" where
  "destructure2 [] = (None, None)"
| "destructure2 [a] = (Some a, None)"
| "destructure2 (a # b # rest) = (Some a, Some b)"

section \<open>Platform records\<close>

text \<open>
  \<open>wr_created_at\<close> and \<open>art_created_at\<close> hold the moment that \<open>moment(x.created_at)\<close>
  reads from the platform's timestamp string.
\<close>

record workflowRun =
  wr_id :: nat
  head_sha :: string
  wr_created_at :: moment

record artifact =
  art_id :: nat
  art_name :: string
  art_created_at :: moment

record configs =
  owner :: "string option"
  repo :: "string option"
  perPage :: nat
  maxAge :: moment
  skipTags :: "bool option"
  skipRecent :: number
  retriesEnabled :: bool
  branchToConsider :: string

section \<open>The world outside the script\<close>

text \<open>
  Everything the script reads or calls and does not define: the process environment, the
  action's inputs, the clock, the libraries and the platform's answers.
  \<^item> \<open>clock n\<close> is what the \<open>n\<close>-th reading of the system clock returns;
  \<^item> \<open>moment_subtract now age units\<close> is \<open>moment().subtract(age, units)\<close> when the clock
    reads \<open>now\<close>: a moment, possibly an invalid one. The library does not raise: from an
    amount that is not a number, or a unit it does not know, it makes a duration of zero and
    returns the moment unchanged;
  \<^item> \<open>getInput\<close> is \<open>core.getInput(key, {required})\<close>, which may raise;
  \<^item> \<open>Number_str\<close> is \<open>Number\<close> on a non-empty string;
  \<^item> \<open>yn\<close> is the lenient boolean parser: \<open>None\<close> is \<open>undefined\<close>;
  \<^item> \<open>listRepoWorkflowRuns\<close> is the sequence of pages the platform delivers, each one a
    page of runs or a failed request;
  \<^item> \<open>listTags\<close> and \<open>listWorkflowRunArtifacts\<close> are the results of the two other
    paginated listings, all pages gathered, or the error of the request that failed;
  \<^item> \<open>deleteArtifact\<close> is the answer to a deletion request: \<open>None\<close> when it succeeds;
  \<^item> \<open>schedule\<close> decides the order in which the artifact listings, all in flight at once,
    complete.
\<close>

record env =
  devEnv :: bool
  process_env :: "string \<Rightarrow> string option"
  getInput :: "string \<Rightarrow> bool \<Rightarrow> error + string"
  clock :: "nat \<Rightarrow> int"
  moment_subtract :: "int \<Rightarrow> string option \<Rightarrow> string option \<Rightarrow> moment"
  Number_str :: "string \<Rightarrow> number"
  yn :: "string option \<Rightarrow> bool option"
  listTags :: "error + string list"
  listRepoWorkflowRuns :: "(error + workflowRun list) list"
  listWorkflowRunArtifacts :: "nat \<Rightarrow> error + artifact list"
  deleteArtifact :: "nat \<Rightarrow> error option"
  schedule :: "nat list"

text \<open>What the script does that can be seen from outside: log lines and requests.\<close>

datatype event =
    LogMaxAge "string option" "string option" moment
  | LogTagsError error
  | LogSkipTagged string
  | LogSkipTooOld string
  | LogExamining nat
  | LogSkipRecent nat string
  | LogFiltering nat string moment bool
  | LogDevPrevent nat string
  | LogAboutToRemove nat string
  | LogRemoved nat string
  | LogDeleteError nat string error
  | CallListTags
  | CallListRuns
  | CallListArtifacts nat
  | CallDeleteArtifact nat

text \<open>
  The mutable state: how often the clock has been read, the shared counter of
  \<open>run\<close>, and the events so far. The counter holds a non-negative integer, exact below
  \<open>2 ^ 53\<close>.
\<close>

record state =
  reads :: nat
  skippedArtifactsCounter :: nat
  trace :: "event list"

definition init :: state where
  "init = \<lparr>reads = 0, skippedArtifactsCounter = 0, trace = []\<rparr>"

definition emit :: "event \<Rightarrow> state \<Rightarrow> state" where
  "emit ev s = s\<lparr>trace := trace s @ [ev]\<rparr>"

definition tick :: "state \<Rightarrow> state" where
  "tick s = s\<lparr>reads := Suc (reads s)\<rparr>"

section \<open>Configuration\<close>

text \<open>
  The names of the inputs, and \<open>readInput\<close>: in the development environment an input is a
  variable of the process environment and may be \<open>undefined\<close>; otherwise it is an input
  of the action.
\<close>

definition inputKeys_AGE :: "env \<Rightarrow> string" where
  "inputKeys_AGE e = (if devEnv e then ''AGE'' else ''age'')"

definition inputKeys_SKIP_TAGS :: "env \<Rightarrow> string" where
  "inputKeys_SKIP_TAGS e = (if devEnv e then ''SKIP_TAGS'' else ''skip-tags'')"

definition inputKeys_SKIP_RECENT :: "env \<Rightarrow> string" where
  "inputKeys_SKIP_RECENT e = (if devEnv e then ''SKIP_RECENT'' else ''skip-recent'')"

definition readInput :: "env \<Rightarrow> string \<Rightarrow> bool \<Rightarrow> error + string option" where
  "readInput e key isRequired =
     (if devEnv e then Inr (process_env e key)
      else (case getInput e key isRequired of
              Inl err \<Rightarrow> Inl err
            | Inr v \<Rightarrow> Inr (Some v)))"

text \<open>\<open>x.split(sep)\<close> on a value that may be \<open>undefined\<close>.\<close>

definition undefined_split :: error where
  "undefined_split =
     Err ''TypeError''
       (''Cannot read properties of undefined (reading '' @ [CHR 0x27] @ ''split'' @ [CHR 0x27]
          @ '')'')"

text \<open>Truthiness of a string that may be \<open>undefined\<close>.\<close>

fun truthy_str :: "string option \<Rightarrow> bool" where
  "truthy_str None = False"
| "truthy_str (Some v) = (v \<noteq> [])"

text \<open>\<open>Number(x)\<close>: \<open>NaN\<close> on \<open>undefined\<close>, zero on the empty string.\<close>

fun Number_js :: "env \<Rightarrow> string option \<Rightarrow> number" where
  "Number_js e None = NaN"
| "Number_js e (Some v) = (if v = [] then Num 0 else Number_str e v)"

definition skipRecent_error :: error where
  "skipRecent_error = Err ''Error'' ''skip-recent option must be type of number.''"

text \<open>
  \<open>getConfigs\<close>, statement by statement. The clock is read twice: once for the moment
  that is logged, once for the \<open>maxAge\<close> of the configuration. The fields of the object
  returned are evaluated in their order: \<open>maxAge\<close>, \<open>skipTags\<close>, \<open>skipRecent\<close>.
\<close>

definition getConfigs :: "env \<Rightarrow> state \<Rightarrow> (error + configs) \<times> state" where
  "getConfigs e s =
     (case process_env e ''GITHUB_REPOSITORY'' of
        None \<Rightarrow> (Inl undefined_split, s)
      | Some repository \<Rightarrow>
     (case readInput e (inputKeys_AGE e) True of
        Inl err \<Rightarrow> (Inl err, s)
      | Inr None \<Rightarrow> (Inl undefined_split, s)
      | Inr (Some ageInput) \<Rightarrow>
     (case destructure2 (split_js CHR ''/'' repository) of (owner', repo') \<Rightarrow>
     (case destructure2 (split_js CHR '' '' ageInput) of (age, units) \<Rightarrow>
     (let logged = moment_subtract e (clock e (reads s)) age units;
          s1 = emit (LogMaxAge age units logged) (tick s) in
     (case readInput e (inputKeys_SKIP_RECENT e) False of
        Inl err \<Rightarrow> (Inl err, s1)
      | Inr skipRecent' \<Rightarrow>
        if truthy_str skipRecent' \<and> isNaN (Number_js e skipRecent')
        then (Inl skipRecent_error, s1)
        else
     (let cutoff = moment_subtract e (clock e (reads s1)) age units in
     (case readInput e (inputKeys_SKIP_TAGS e) False of
        Inl err \<Rightarrow> (Inl err, tick s1)
      | Inr skipTags' \<Rightarrow>
          (Inr \<lparr>owner = owner', repo = repo', perPage = 100, maxAge = cutoff,
                skipTags = yn e skipTags', skipRecent = Number_js e skipRecent',
                retriesEnabled = True, branchToConsider = ''master''\<rparr>,
           tick s1)))))))))"

section \<open>Tags and workflow runs\<close>

definition getTaggedCommits :: "env \<Rightarrow> state \<Rightarrow> (error + string list) \<times> state" where
  "getTaggedCommits e s = (listTags e, emit CallListTags s)"

definition tenDays :: int where
  "tenDays = 10 * 24 * 60 * 60 * 1000"

definition isTooOld :: "env \<Rightarrow> workflowRun \<Rightarrow> state \<Rightarrow> bool \<times> state" where
  "isTooOld e workflowRun s =
     (let createdAt = wr_created_at workflowRun
      in (isBefore createdAt (Some (clock e (reads s) - tenDays)), tick s))"

text \<open>\<open>data.find(isTooOld)\<close>: stops at the first run for which the predicate holds.\<close>

fun find_isTooOld :: "env \<Rightarrow> workflowRun list \<Rightarrow> state \<Rightarrow> workflowRun option \<times> state" where
  "find_isTooOld e [] s = (None, s)"
| "find_isTooOld e (r # rs) s =
     (case isTooOld e r s of
        (b, s') \<Rightarrow> if b then (Some r, s') else find_isTooOld e rs s')"

text \<open>
  The callback given to \<open>octokit.paginate\<close>: whether it called \<open>done\<close>, and what it
  returned.
\<close>

definition onRunsPage :: "env \<Rightarrow> workflowRun list \<Rightarrow> state \<Rightarrow> (bool \<times> workflowRun list) \<times> state" where
  "onRunsPage e data s =
     (case find_isTooOld e data s of
        (stopPagination, s') \<Rightarrow> ((stopPagination \<noteq> None, data), s'))"

text \<open>
  \<open>octokit.paginate(request, mapFn)\<close>: requests the pages one after the other, hands each
  to \<open>mapFn\<close>, appends what it returns, and stops after the page on which \<open>mapFn\<close> called
  \<open>done\<close>, after the last page, or at the first failed request.
\<close>

fun paginate :: "(error + 'a list) list \<Rightarrow> ('a list \<Rightarrow> state \<Rightarrow> (bool \<times> 'b list) \<times> state)
    \<Rightarrow> state \<Rightarrow> (error + 'b list) \<times> state" where
  "paginate [] mapFn s = (Inr [], s)"
| "paginate (p # ps) mapFn s =
     (let s1 = emit CallListRuns s in
      case p of
        Inl err \<Rightarrow> (Inl err, s1)
      | Inr data \<Rightarrow>
          (case mapFn data s1 of
             ((earlyExit, results), s2) \<Rightarrow>
               if earlyExit then (Inr results, s2)
               else (case paginate ps mapFn s2 of
                       (Inl err, s3) \<Rightarrow> (Inl err, s3)
                     | (Inr rest, s3) \<Rightarrow> (Inr (results @ rest), s3))))"

text \<open>\<open>taggedCommits.includes(sha)\<close>, where \<open>taggedCommits\<close> may be \<open>undefined\<close>.\<close>

definition undefined_includes :: error where
  "undefined_includes =
     Err ''TypeError''
       (''Cannot read properties of undefined (reading '' @ [CHR 0x27] @ ''includes''
          @ [CHR 0x27] @ '')'')"

definition includes_js :: "string list option \<Rightarrow> string \<Rightarrow> error + bool" where
  "includes_js taggedCommits sha =
     (case taggedCommits of
        None \<Rightarrow> Inl undefined_includes
      | Some shas \<Rightarrow> Inr (sha \<in> set shas))"

text \<open>The callback of \<open>workflowRuns.filter\<close>.\<close>

definition keepWorkflowRun :: "env \<Rightarrow> configs \<Rightarrow> string list option \<Rightarrow> workflowRun \<Rightarrow> state
    \<Rightarrow> (error + bool) \<times> state" where
  "keepWorkflowRun e cfg taggedCommits workflowRun s =
     (case (if skipTags cfg = Some True
            then includes_js taggedCommits (head_sha workflowRun)
            else Inr False) of
        Inl err \<Rightarrow> (Inl err, s)
      | Inr skipTaggedWorkflow \<Rightarrow>
          if skipTaggedWorkflow
          then (Inr False, emit (LogSkipTagged (head_sha workflowRun)) s)
          else (case isTooOld e workflowRun s of
                  (tooOld, s') \<Rightarrow>
                    if tooOld
                    then (Inr False, emit (LogSkipTooOld (head_sha workflowRun)) s')
                    else (Inr True, s')))"

fun filter_runs :: "env \<Rightarrow> configs \<Rightarrow> string list option \<Rightarrow> workflowRun list \<Rightarrow> state
    \<Rightarrow> (error + workflowRun list) \<times> state" where
  "filter_runs e cfg taggedCommits [] s = (Inr [], s)"
| "filter_runs e cfg taggedCommits (r # rs) s =
     (case keepWorkflowRun e cfg taggedCommits r s of
        (Inl err, s') \<Rightarrow> (Inl err, s')
      | (Inr keep, s') \<Rightarrow>
          (case filter_runs e cfg taggedCommits rs s' of
             (Inl err, s2) \<Rightarrow> (Inl err, s2)
           | (Inr kept, s2) \<Rightarrow> (Inr (if keep then r # kept else kept), s2)))"

section \<open>Artifacts\<close>

text \<open>The callback of \<open>artifacts.filter\<close>.\<close>

definition skipRecentArtifact :: "configs \<Rightarrow> state \<Rightarrow> bool" where
  "skipRecentArtifact cfg s =
     (truthy (skipRecent cfg) \<and> gt_counter (skipRecent cfg) (skippedArtifactsCounter s))"

definition keepArtifact :: "configs \<Rightarrow> artifact \<Rightarrow> state \<Rightarrow> bool \<times> state" where
  "keepArtifact cfg a s =
     (if skipRecentArtifact cfg s
      then (False,
            (emit (LogSkipRecent (art_id a) (art_name a)) s)
              \<lparr>skippedArtifactsCounter := skippedArtifactsCounter s + 1\<rparr>)
      else (let createdAt = art_created_at a;
                filtered = isBefore createdAt (maxAge cfg)
            in (filtered, emit (LogFiltering (art_id a) (art_name a) (art_created_at a) filtered) s)))"

fun filter_artifacts :: "configs \<Rightarrow> artifact list \<Rightarrow> state \<Rightarrow> artifact list \<times> state" where
  "filter_artifacts cfg [] s = ([], s)"
| "filter_artifacts cfg (a # as) s =
     (case keepArtifact cfg a s of
        (keep, s') \<Rightarrow>
          (case filter_artifacts cfg as s' of
             (kept, s2) \<Rightarrow> (if keep then a # kept else kept, s2)))"

text \<open>
  The callback of \<open>.map\<close> on the artifacts that passed the filter. The promise it returns
  never rejects: \<open>.catch\<close> logs the failure of the request. The outcome of a request is
  recorded right after the request. In the script the requests of a run are all issued
  before the first outcome is logged, and the outcomes arrive in an order of their own:
  where the outcome lines stand among the other lines of the log is not modelled.
\<close>

definition removeArtifact :: "env \<Rightarrow> artifact \<Rightarrow> state \<Rightarrow> state" where
  "removeArtifact e a s =
     (if devEnv e then emit (LogDevPrevent (art_id a) (art_name a)) s
      else (let s1 = emit (CallDeleteArtifact (art_id a))
                       (emit (LogAboutToRemove (art_id a) (art_name a)) s)
            in (case deleteArtifact e (art_id a) of
                  None \<Rightarrow> emit (LogRemoved (art_id a) (art_name a)) s1
                | Some err \<Rightarrow> emit (LogDeleteError (art_id a) (art_name a) err) s1)))"

text \<open>What happens when the listing of the artifacts of one run completes.\<close>

definition onArtifacts :: "env \<Rightarrow> configs \<Rightarrow> workflowRun \<Rightarrow> state \<Rightarrow> error option \<times> state" where
  "onArtifacts e cfg workflowRun s =
     (case listWorkflowRunArtifacts e (wr_id workflowRun) of
        Inl err \<Rightarrow> (Some err, s)
      | Inr artifacts \<Rightarrow>
          (case filter_artifacts cfg artifacts s of
             (kept, s') \<Rightarrow> (None, fold (removeArtifact e) kept s')))"

text \<open>The first callback of \<open>.map\<close> on the runs: the listing is requested.\<close>

definition examine :: "workflowRun \<Rightarrow> state \<Rightarrow> state" where
  "examine workflowRun s =
     emit (CallListArtifacts (wr_id workflowRun)) (emit (LogExamining (wr_id workflowRun)) s)"

text \<open>
  The order in which the pending listings complete: each pick takes one of the listings
  still pending; when the picks run out, the rest complete in the order of their requests.
\<close>

fun completion_order :: "nat list \<Rightarrow> 'a list \<Rightarrow> 'a list" where
  "completion_order picks [] = []"
| "completion_order [] (x # xs) = x # xs"
| "completion_order (k # ks) (x # xs) =
     (let i = k mod length (x # xs)
      in (x # xs) ! i # completion_order ks (take i (x # xs) @ drop (Suc i) (x # xs)))"

text \<open>
  \<open>Promise.all\<close> over the pipelines: it rejects with the first failure, and the pipelines
  still in flight go on to their end.
\<close>

fun settle :: "env \<Rightarrow> configs \<Rightarrow> workflowRun list \<Rightarrow> state \<Rightarrow> error option \<times> state" where
  "settle e cfg [] s = (None, s)"
| "settle e cfg (r # rs) s =
     (case onArtifacts e cfg r s of
        (res, s') \<Rightarrow>
          (case settle e cfg rs s' of
             (res', s2) \<Rightarrow> ((case res of Some err \<Rightarrow> Some err | None \<Rightarrow> res'), s2)))"

text \<open>The \<open>.then\<close> on the paginated runs.\<close>

definition processRuns :: "env \<Rightarrow> configs \<Rightarrow> string list option \<Rightarrow> workflowRun list \<Rightarrow> state
    \<Rightarrow> error option \<times> state" where
  "processRuns e cfg taggedCommits workflowRuns s =
     (case filter_runs e cfg taggedCommits workflowRuns s of
        (Inl err, s') \<Rightarrow> (Some err, s')
      | (Inr survivors, s') \<Rightarrow>
          settle e cfg (completion_order (schedule e) survivors) (fold examine survivors s'))"

section \<open>The script\<close>

text \<open>
  The tagged commits are requested only when \<open>configs.skipTags\<close> is truthy; otherwise
  \<open>taggedCommits\<close> stays \<open>undefined\<close>. A failure of the request is logged and thrown
  again.
\<close>

definition tagStage :: "env \<Rightarrow> configs \<Rightarrow> state \<Rightarrow> (error + string list option) \<times> state" where
  "tagStage e cfg s =
     (if skipTags cfg = Some True
      then (case getTaggedCommits e s of
              (Inl err, s') \<Rightarrow> (Inl err, emit (LogTagsError err) s')
            | (Inr shas, s') \<Rightarrow> (Inr (Some shas), s'))
      else (Inr None, s))"

text \<open>
  \<open>run\<close>: the configuration, the tagged commits, the runs, then the fan-out. The result is
  the error with which the promise rejects, if it does. The throttling callbacks only log
  and let the client retry; what the platform answers in the end is what \<open>env\<close> holds.
  The loading of the environment file in the development environment happens before
  \<open>run\<close> and is left out.
\<close>

definition run :: "env \<Rightarrow> state \<Rightarrow> error option \<times> state" where
  "run e s =
     (case getConfigs e s of
        (Inl err, s1) \<Rightarrow> (Some err, s1)
      | (Inr cfg, s1) \<Rightarrow>
     (case tagStage e cfg s1 of
        (Inl err, s2) \<Rightarrow> (Some err, s2)
      | (Inr taggedCommits, s2) \<Rightarrow>
     (case paginate (listRepoWorkflowRuns e) (onRunsPage e) s2 of
        (Inl err, s3) \<Rightarrow> (Some err, s3)
      | (Inr workflowRuns, s3) \<Rightarrow> processRuns e cfg taggedCommits workflowRuns s3)))"

text \<open>
  \<open>run().catch(err => core.setFailed(err.toString()))\<close>: the outcome of the process and
  what it did. \<open>core.setFailed\<close> records the message and sets the exit code of the process
  to one; a process that never calls it exits with zero.
\<close>

datatype outcome = Completed | Failed string

fun exit_code :: "outcome \<Rightarrow> nat" where
  "exit_code Completed = 0"
| "exit_code (Failed message) = 1"

definition main :: "env \<Rightarrow> outcome \<times> event list" where
  "main e =
     (case run e init of
        (None, s) \<Rightarrow> (Completed, trace s)
      | (Some err, s) \<Rightarrow> (Failed (toString err), trace s))"

section \<open>Observations on a trace\<close>

text \<open>An artifact as the log names it.\<close>

definition ident :: "artifact \<Rightarrow> nat \<times> string" where
  "ident a = (art_id a, art_name a)"

fun skippedRecent_of :: "event \<Rightarrow> (nat \<times> string) list" where
  "skippedRecent_of (LogSkipRecent i n) = [(i, n)]"
| "skippedRecent_of ev = []"

fun ageChecked_of :: "event \<Rightarrow> (nat \<times> string) list" where
  "ageChecked_of (LogFiltering i n c b) = [(i, n)]"
| "ageChecked_of ev = []"

fun removals_of :: "event \<Rightarrow> (nat \<times> string) list" where
  "removals_of (LogAboutToRemove i n) = [(i, n)]"
| "removals_of (LogDevPrevent i n) = [(i, n)]"
| "removals_of ev = []"

fun listCalls_of :: "event \<Rightarrow> nat list" where
  "listCalls_of (CallListArtifacts i) = [i]"
| "listCalls_of ev = []"

fun deleteCalls_of :: "event \<Rightarrow> nat list" where
  "deleteCalls_of (CallDeleteArtifact i) = [i]"
| "deleteCalls_of ev = []"

fun pageRequests_of :: "event \<Rightarrow> unit list" where
  "pageRequests_of CallListRuns = [()]"
| "pageRequests_of ev = []"

text \<open>The artifacts skipped by the recent-count rule, in the order of the log.\<close>

definition skippedRecent :: "event list \<Rightarrow> (nat \<times> string) list" where
  "skippedRecent tr = concat (map skippedRecent_of tr)"

text \<open>The artifacts whose age was compared with the cutoff.\<close>

definition ageChecked :: "event list \<Rightarrow> (nat \<times> string) list" where
  "ageChecked tr = concat (map ageChecked_of tr)"

text \<open>The artifacts handed to the removal step.\<close>

definition removals :: "event list \<Rightarrow> (nat \<times> string) list" where
  "removals tr = concat (map removals_of tr)"

text \<open>The runs whose artifacts were requested, and the artifacts whose deletion was requested.\<close>

definition listCalls :: "event list \<Rightarrow> nat list" where
  "listCalls tr = concat (map listCalls_of tr)"

definition deleteCalls :: "event list \<Rightarrow> nat list" where
  "deleteCalls tr = concat (map deleteCalls_of tr)"

text \<open>How many pages of runs were requested.\<close>

definition pageRequests :: "event list \<Rightarrow> nat" where
  "pageRequests tr = length (concat (map pageRequests_of tr))"

text \<open>The requests to the platform among the events.\<close>

fun isCall :: "event \<Rightarrow> bool" where
  "isCall CallListTags = True"
| "isCall CallListRuns = True"
| "isCall (CallListArtifacts i) = True"
| "isCall (CallDeleteArtifact i) = True"
| "isCall ev = False"

definition networkCalls :: "event list \<Rightarrow> event list" where
  "networkCalls tr = filter isCall tr"

text \<open>A trace without the outcomes of the deletion requests.\<close>

fun isDeleteOutcome :: "event \<Rightarrow> bool" where
  "isDeleteOutcome (LogRemoved i n) = True"
| "isDeleteOutcome (LogDeleteError i n err) = True"
| "isDeleteOutcome ev = False"

definition withoutOutcomes :: "event list \<Rightarrow> event list" where
  "withoutOutcomes tr = filter (\<lambda>ev. \<not> isDeleteOutcome ev) tr"

text \<open>
  Two states that differ at most in the outcomes of the deletion requests they record.
\<close>

definition sim :: "state \<Rightarrow> state \<Rightarrow> bool" where
  "sim s t =
     (reads s = reads t \<and> skippedArtifactsCounter s = skippedArtifactsCounter t
      \<and> withoutOutcomes (trace s) = withoutOutcomes (trace t))"

text \<open>The artifacts that the listing of a run delivers: none when the request fails.\<close>

definition listed :: "env \<Rightarrow> workflowRun \<Rightarrow> artifact list" where
  "listed e r =
     (case listWorkflowRunArtifacts e (wr_id r) of Inl err \<Rightarrow> [] | Inr artifacts \<Rightarrow> artifacts)"

text \<open>The failures among the listings of some runs, in the order of the runs.\<close>

definition listingErrors :: "env \<Rightarrow> workflowRun list \<Rightarrow> error list" where
  "listingErrors e rs =
     concat (map (\<lambda>r. case listWorkflowRunArtifacts e (wr_id r) of
                         Inl err \<Rightarrow> [err] | Inr artifacts \<Rightarrow> []) rs)"

text \<open>
  The early-termination predicate in the words of the specification: the creation
  timestamp is before the instant \<open>now\<close> minus ten days.
\<close>

definition spec_tooOld :: "int \<Rightarrow> workflowRun \<Rightarrow> bool" where
  "spec_tooOld now r =
     (case wr_created_at r of None \<Rightarrow> False | Some c \<Rightarrow> c < now - 864000000)"

text \<open>The run's head commit is one of the tagged commits, and tag-skip is active.\<close>

definition tagged :: "configs \<Rightarrow> string list option \<Rightarrow> workflowRun \<Rightarrow> bool" where
  "tagged cfg taggedCommits r =
     (skipTags cfg = Some True \<and>
      (case taggedCommits of None \<Rightarrow> False | Some shas \<Rightarrow> head_sha r \<in> set shas))"

text \<open>
  The runs that pass the run-level filter, in the words of the specification: the runs
  that are not tagged, each examined at its own reading of the clock, less those too old.
\<close>

definition spec_survivors :: "env \<Rightarrow> configs \<Rightarrow> string list option \<Rightarrow> nat \<Rightarrow> workflowRun list
    \<Rightarrow> workflowRun list" where
  "spec_survivors e cfg taggedCommits n wrs =
     map snd (filter (\<lambda>(k, r). \<not> spec_tooOld (clock e k) r)
       (enumerate n (filter (\<lambda>r. \<not> tagged cfg taggedCommits r) wrs)))"

text \<open>A negative number.\<close>

fun negative :: "number \<Rightarrow> bool" where
  "negative NaN = False"
| "negative (Num q) = (q < 0)"
| "negative PosInf = False"
| "negative NegInf = True"

section \<open>A sample world\<close>

text \<open>
  One repository on one day: five runs on three pages, seven artifacts on two of the runs,
  one tagged commit, one artifact whose deletion the platform refuses.
\<close>

definition day :: int where
  "day = 86400000"

definition now0 :: int where
  "now0 = 1700000000000"

definition sample_getInput :: "string \<Rightarrow> string \<Rightarrow> string \<Rightarrow> string \<Rightarrow> bool \<Rightarrow> error + string" where
  "sample_getInput age skip_recent skip_tags key isRequired =
     (let v = (if key = ''age'' then age
               else if key = ''skip-recent'' then skip_recent
               else if key = ''skip-tags'' then skip_tags
               else [])
      in if isRequired \<and> v = []
         then Inl (Err ''Error'' (''Input required and not supplied: '' @ key))
         else Inr v)"

text \<open>
  A time library that does as \<open>moment\<close> does on the durations it covers: a whole number
  of weeks, days, hours, minutes or seconds, or of milliseconds when no unit is given, in a
  time zone without daylight saving. Like \<open>moment\<close>, it subtracts nothing when the amount
  is not a number or the unit is not one it knows. Calendar units and amounts with a
  fraction or a sign are not covered.
\<close>

definition digit_of :: "char \<Rightarrow> nat option" where
  "digit_of c =
     (let code = (of_char c :: nat)
      in if 48 \<le> code \<and> code \<le> 57 then Some (code - 48) else None)"

fun whole_number_from :: "nat \<Rightarrow> string \<Rightarrow> nat option" where
  "whole_number_from n [] = Some n"
| "whole_number_from n (c # cs) =
     (case digit_of c of None \<Rightarrow> None | Some d \<Rightarrow> whole_number_from (10 * n + d) cs)"

definition whole_number :: "string \<Rightarrow> nat option" where
  "whole_number v = (if v = [] then None else whole_number_from 0 v)"

definition unit_length :: "string option \<Rightarrow> int option" where
  "unit_length units =
     (if units = None \<or> units = Some ''milliseconds'' \<or> units = Some ''millisecond''
         \<or> units = Some ''ms''
      then Some 1
      else if units = Some ''seconds'' \<or> units = Some ''second'' \<or> units = Some ''s''
        then Some 1000
      else if units = Some ''minutes'' \<or> units = Some ''minute'' \<or> units = Some ''m''
        then Some 60000
      else if units = Some ''hours'' \<or> units = Some ''hour'' \<or> units = Some ''h''
        then Some 3600000
      else if units = Some ''days'' \<or> units = Some ''day'' \<or> units = Some ''d''
        then Some day
      else if units = Some ''weeks'' \<or> units = Some ''week'' \<or> units = Some ''w''
        then Some (7 * day)
      else None)"

definition sample_subtract :: "int \<Rightarrow> string option \<Rightarrow> string option \<Rightarrow> moment" where
  "sample_subtract now age units =
     (case age of
        None \<Rightarrow> Some now
      | Some amount \<Rightarrow>
          (case whole_number amount of
             None \<Rightarrow> Some now
           | Some n \<Rightarrow>
               (case unit_length units of
                  None \<Rightarrow> Some now
                | Some len \<Rightarrow> Some (now - int n * len))))"

definition sample_Number :: "string \<Rightarrow> number" where
  "sample_Number v =
     (if v = ''2'' then Num 2
      else if v = ''3'' then Num 3
      else if v = ''-1'' then Num (- 1)
      else if v = ''2.5'' then Num (5 / 2)
      else NaN)"

text \<open>The lenient boolean parser on inputs in lower case.\<close>

definition sample_yn :: "string option \<Rightarrow> bool option" where
  "sample_yn v =
     (if v = Some ''y'' \<or> v = Some ''yes'' \<or> v = Some ''true'' \<or> v = Some ''1''
         \<or> v = Some ''on''
      then Some True
      else if v = Some ''n'' \<or> v = Some ''no'' \<or> v = Some ''false'' \<or> v = Some ''0''
         \<or> v = Some ''off''
        then Some False
      else None)"

definition r1 :: workflowRun where
  "r1 = \<lparr>wr_id = 1, head_sha = ''aaa'', wr_created_at = Some (now0 - 1 * day)\<rparr>"

definition r2 :: workflowRun where
  "r2 = \<lparr>wr_id = 2, head_sha = ''bbb'', wr_created_at = Some (now0 - 2 * day)\<rparr>"

definition r3 :: workflowRun where
  "r3 = \<lparr>wr_id = 3, head_sha = ''ccc'', wr_created_at = Some (now0 - 3 * day)\<rparr>"

definition r4 :: workflowRun where
  "r4 = \<lparr>wr_id = 4, head_sha = ''ddd'', wr_created_at = Some (now0 - 11 * day)\<rparr>"

definition r5 :: workflowRun where
  "r5 = \<lparr>wr_id = 5, head_sha = ''eee'', wr_created_at = Some (now0 - 12 * day)\<rparr>"

definition a11 :: artifact where
  "a11 = \<lparr>art_id = 11, art_name = ''build'', art_created_at = Some (now0 - 45 * day)\<rparr>"

definition a12 :: artifact where
  "a12 = \<lparr>art_id = 12, art_name = ''logs'', art_created_at = Some (now0 - 1 * day)\<rparr>"

definition a13 :: artifact where
  "a13 = \<lparr>art_id = 13, art_name = ''docs'', art_created_at = Some (now0 - 40 * day)\<rparr>"

definition a14 :: artifact where
  "a14 = \<lparr>art_id = 14, art_name = ''dist'', art_created_at = Some (now0 - 50 * day)\<rparr>"

definition a15 :: artifact where
  "a15 = \<lparr>art_id = 15, art_name = ''cover'', art_created_at = Some (now0 - 1 * day)\<rparr>"

definition a31 :: artifact where
  "a31 = \<lparr>art_id = 31, art_name = ''build'', art_created_at = Some (now0 - 60 * day)\<rparr>"

definition a32 :: artifact where
  "a32 = \<lparr>art_id = 32, art_name = ''logs'', art_created_at = Some (now0 - 3 * day)\<rparr>"

definition sample_artifacts :: "nat \<Rightarrow> error + artifact list" where
  "sample_artifacts run_id =
     (if run_id = 1 then Inr [a11, a12, a13, a14, a15]
      else if run_id = 2 then Inr []
      else if run_id = 3 then Inr [a31, a32]
      else Inl (Err ''HttpError'' ''Not Found''))"

definition sample_delete :: "nat \<Rightarrow> error option" where
  "sample_delete artifact_id =
     (if artifact_id = 14 then Some (Err ''HttpError'' ''Server Error'') else None)"

definition sample :: "string \<Rightarrow> string \<Rightarrow> string \<Rightarrow> env" where
  "sample age skip_recent skip_tags =
     \<lparr>devEnv = False,
      process_env = (\<lambda>key. if key = ''GITHUB_REPOSITORY'' then Some ''octo/repo'' else None),
      getInput = sample_getInput age skip_recent skip_tags,
      clock = (\<lambda>n. now0 + int n),
      moment_subtract = sample_subtract,
      Number_str = sample_Number,
      yn = sample_yn,
      listTags = Inr [''bbb''],
      listRepoWorkflowRuns = [Inr [r1, r2], Inr [r3, r4], Inr [r5]],
      listWorkflowRunArtifacts = sample_artifacts,
      deleteArtifact = sample_delete,
      schedule = [1]\<rparr>"

text \<open>The configuration that \<open>age = 30 days\<close> gives when the clock reads \<open>now0 + 1\<close>.\<close>

definition sample_configs :: "number \<Rightarrow> bool option \<Rightarrow> configs" where
  "sample_configs n t =
     \<lparr>owner = Some ''octo'', repo = Some ''repo'', perPage = 100,
      maxAge = Some (now0 + 1 - 30 * day), skipTags = t, skipRecent = n,
      retriesEnabled = True, branchToConsider = ''master''\<rparr>"

section \<open>Basic facts\<close>

lemma reads_emit [simp]: "reads (emit ev s) = reads s"
  and counter_emit [simp]: "skippedArtifactsCounter (emit ev s) = skippedArtifactsCounter s"
  and trace_emit [simp]: "trace (emit ev s) = trace s @ [ev]"
  by (simp_all add: emit_def)

lemma reads_tick [simp]: "reads (tick s) = Suc (reads s)"
  and counter_tick [simp]: "skippedArtifactsCounter (tick s) = skippedArtifactsCounter s"
  and trace_tick [simp]: "trace (tick s) = trace s"
  by (simp_all add: tick_def)

lemma skippedRecent_append [simp]: "skippedRecent (xs @ ys) = skippedRecent xs @ skippedRecent ys"
  and ageChecked_append [simp]: "ageChecked (xs @ ys) = ageChecked xs @ ageChecked ys"
  and removals_append [simp]: "removals (xs @ ys) = removals xs @ removals ys"
  and listCalls_append [simp]: "listCalls (xs @ ys) = listCalls xs @ listCalls ys"
  and deleteCalls_append [simp]: "deleteCalls (xs @ ys) = deleteCalls xs @ deleteCalls ys"
  and pageRequests_append [simp]: "pageRequests (xs @ ys) = pageRequests xs + pageRequests ys"
  and withoutOutcomes_append [simp]:
    "withoutOutcomes (xs @ ys) = withoutOutcomes xs @ withoutOutcomes ys"
  by (simp_all add: skippedRecent_def ageChecked_def removals_def listCalls_def
      deleteCalls_def pageRequests_def withoutOutcomes_def)

lemma skippedRecent_Nil [simp]: "skippedRecent [] = []"
  and ageChecked_Nil [simp]: "ageChecked [] = []"
  and removals_Nil [simp]: "removals [] = []"
  and listCalls_Nil [simp]: "listCalls [] = []"
  and deleteCalls_Nil [simp]: "deleteCalls [] = []"
  and pageRequests_Nil [simp]: "pageRequests [] = 0"
  and withoutOutcomes_Nil [simp]: "withoutOutcomes [] = []"
  by (simp_all add: skippedRecent_def ageChecked_def removals_def listCalls_def
      deleteCalls_def pageRequests_def withoutOutcomes_def)

lemma skippedRecent_Cons [simp]: "skippedRecent (ev # tr) = skippedRecent_of ev @ skippedRecent tr"
  and ageChecked_Cons [simp]: "ageChecked (ev # tr) = ageChecked_of ev @ ageChecked tr"
  and removals_Cons [simp]: "removals (ev # tr) = removals_of ev @ removals tr"
  and listCalls_Cons [simp]: "listCalls (ev # tr) = listCalls_of ev @ listCalls tr"
  and deleteCalls_Cons [simp]: "deleteCalls (ev # tr) = deleteCalls_of ev @ deleteCalls tr"
  and pageRequests_Cons [simp]:
    "pageRequests (ev # tr) = length (pageRequests_of ev) + pageRequests tr"
  and withoutOutcomes_Cons [simp]:
    "withoutOutcomes (ev # tr) = (if isDeleteOutcome ev then [] else [ev]) @ withoutOutcomes tr"
  by (simp_all add: skippedRecent_def ageChecked_def removals_def listCalls_def
      deleteCalls_def pageRequests_def withoutOutcomes_def)

lemma isBefore_iff: "isBefore a b \<longleftrightarrow> (\<exists>x y. a = Some x \<and> b = Some y \<and> x < y)"
  by (auto simp: isBefore_def split: option.splits)

section \<open>The artifact filter with a whole number of artifacts to skip\<close>

lemma skip_nat:
  "skipRecent cfg = Num (of_nat N) \<Longrightarrow>
     skipRecentArtifact cfg s \<longleftrightarrow> skippedArtifactsCounter s < N"
  by (auto simp: skipRecentArtifact_def)

lemma filter_artifacts_nat:
  "filter_artifacts cfg as s = (kept, s') \<Longrightarrow> skipRecent cfg = Num (of_nat N) \<Longrightarrow>
   skippedArtifactsCounter s \<le> N \<Longrightarrow>
     kept = filter (\<lambda>a. isBefore (art_created_at a) (maxAge cfg))
              (drop (N - skippedArtifactsCounter s) as)
   \<and> skippedArtifactsCounter s' =
       skippedArtifactsCounter s + min (N - skippedArtifactsCounter s) (length as)
   \<and> reads s' = reads s
   \<and> skippedRecent (trace s') =
       skippedRecent (trace s) @ map ident (take (N - skippedArtifactsCounter s) as)
   \<and> ageChecked (trace s') =
       ageChecked (trace s) @ map ident (drop (N - skippedArtifactsCounter s) as)
   \<and> removals (trace s') = removals (trace s)"
proof (induction as arbitrary: s kept s')
  case Nil
  then show ?case by simp
next
  case (Cons a as)
  obtain keep s1 where k: "keepArtifact cfg a s = (keep, s1)"
    by (cases "keepArtifact cfg a s")
  obtain kept1 s2 where f: "filter_artifacts cfg as s1 = (kept1, s2)"
    by (cases "filter_artifacts cfg as s1")
  from Cons.prems(1) k f have r: "kept = (if keep then a # kept1 else kept1)" "s' = s2"
    by auto
  show ?case
  proof (cases "skippedArtifactsCounter s < N")
    case True
    with k Cons.prems(2)
    have s1: "keep = False" "skippedArtifactsCounter s1 = Suc (skippedArtifactsCounter s)"
      "reads s1 = reads s" "trace s1 = trace s @ [LogSkipRecent (art_id a) (art_name a)]"
      by (auto simp: keepArtifact_def skip_nat)
    from True s1 have le: "skippedArtifactsCounter s1 \<le> N" by simp
    from True obtain d where
      d: "N - skippedArtifactsCounter s = Suc d" "N - skippedArtifactsCounter s1 = d"
      using s1(2) by (metis Suc_diff_Suc)
    from Cons.IH[OF f Cons.prems(2) le] r s1 d show ?thesis
      by (simp add: ident_def)
  next
    case False
    with Cons.prems(3) have eq: "skippedArtifactsCounter s = N" by simp
    with k Cons.prems(2)
    have s1: "keep = isBefore (art_created_at a) (maxAge cfg)" "skippedArtifactsCounter s1 = N"
      "reads s1 = reads s"
      "trace s1 = trace s @ [LogFiltering (art_id a) (art_name a) (art_created_at a) keep]"
      by (auto simp: keepArtifact_def skip_nat Let_def)
    from Cons.IH[OF f Cons.prems(2)] r s1 eq show ?thesis
      by (simp add: ident_def)
  qed
qed

lemma removeArtifact_facts:
  "reads (removeArtifact e a s) = reads s"
  "skippedArtifactsCounter (removeArtifact e a s) = skippedArtifactsCounter s"
  "skippedRecent (trace (removeArtifact e a s)) = skippedRecent (trace s)"
  "ageChecked (trace (removeArtifact e a s)) = ageChecked (trace s)"
  "listCalls (trace (removeArtifact e a s)) = listCalls (trace s)"
  "pageRequests (trace (removeArtifact e a s)) = pageRequests (trace s)"
  "removals (trace (removeArtifact e a s)) = removals (trace s) @ [ident a]"
  by (simp_all add: removeArtifact_def Let_def ident_def split: option.splits)

lemma fold_removeArtifact_facts:
  "reads (fold (removeArtifact e) kept s) = reads s"
  "skippedArtifactsCounter (fold (removeArtifact e) kept s) = skippedArtifactsCounter s"
  "skippedRecent (trace (fold (removeArtifact e) kept s)) = skippedRecent (trace s)"
  "ageChecked (trace (fold (removeArtifact e) kept s)) = ageChecked (trace s)"
  "listCalls (trace (fold (removeArtifact e) kept s)) = listCalls (trace s)"
  "pageRequests (trace (fold (removeArtifact e) kept s)) = pageRequests (trace s)"
  "removals (trace (fold (removeArtifact e) kept s)) = removals (trace s) @ map ident kept"
  by (induction kept arbitrary: s; simp add: removeArtifact_facts)+

lemma onArtifacts_nat:
  assumes "onArtifacts e cfg r s = (res, s')" and "skipRecent cfg = Num (of_nat N)"
    and "skippedArtifactsCounter s \<le> N"
  shows "skippedArtifactsCounter s' =
           skippedArtifactsCounter s + min (N - skippedArtifactsCounter s) (length (listed e r))
    \<and> reads s' = reads s
    \<and> skippedRecent (trace s') =
           skippedRecent (trace s) @ map ident (take (N - skippedArtifactsCounter s) (listed e r))
    \<and> ageChecked (trace s') =
           ageChecked (trace s) @ map ident (drop (N - skippedArtifactsCounter s) (listed e r))
    \<and> removals (trace s') =
           removals (trace s) @ map ident (filter (\<lambda>a. isBefore (art_created_at a) (maxAge cfg))
             (drop (N - skippedArtifactsCounter s) (listed e r)))"
proof (cases "listWorkflowRunArtifacts e (wr_id r)")
  case (Inl err)
  with assms(1) show ?thesis
    by (auto simp: onArtifacts_def listed_def)
next
  case (Inr artifacts)
  obtain kept s1 where f: "filter_artifacts cfg artifacts s = (kept, s1)"
    by (cases "filter_artifacts cfg artifacts s")
  with assms(1) Inr have s': "s' = fold (removeArtifact e) kept s1"
    by (simp add: onArtifacts_def)
  from Inr have l: "listed e r = artifacts" by (simp add: listed_def)
  from filter_artifacts_nat[OF f assms(2,3)] s' l
  show ?thesis
    by (simp add: fold_removeArtifact_facts)
qed

lemma settle_nat:
  "settle e cfg rs s = (res, s') \<Longrightarrow> skipRecent cfg = Num (of_nat N) \<Longrightarrow>
   skippedArtifactsCounter s \<le> N \<Longrightarrow>
     skippedArtifactsCounter s' =
       skippedArtifactsCounter s
         + min (N - skippedArtifactsCounter s) (length (concat (map (listed e) rs)))
   \<and> reads s' = reads s
   \<and> skippedRecent (trace s') =
       skippedRecent (trace s)
         @ map ident (take (N - skippedArtifactsCounter s) (concat (map (listed e) rs)))
   \<and> ageChecked (trace s') =
       ageChecked (trace s)
         @ map ident (drop (N - skippedArtifactsCounter s) (concat (map (listed e) rs)))
   \<and> removals (trace s') =
       removals (trace s) @ map ident (filter (\<lambda>a. isBefore (art_created_at a) (maxAge cfg))
         (drop (N - skippedArtifactsCounter s) (concat (map (listed e) rs))))"
proof (induction rs arbitrary: s res s')
  case Nil
  then show ?case by simp
next
  case (Cons r rs)
  obtain res1 s1 where o: "onArtifacts e cfg r s = (res1, s1)"
    by (cases "onArtifacts e cfg r s")
  obtain res2 s2 where t: "settle e cfg rs s1 = (res2, s2)"
    by (cases "settle e cfg rs s1")
  from Cons.prems(1) o t have s': "s' = s2" by simp
  note oa = onArtifacts_nat[OF o Cons.prems(2,3)]
  from oa Cons.prems(3) have le: "skippedArtifactsCounter s1 \<le> N" by arith
  have d: "N - skippedArtifactsCounter s1 = N - skippedArtifactsCounter s - length (listed e r)"
    using oa by arith
  have m: "skippedArtifactsCounter s1
             + min (N - skippedArtifactsCounter s - length (listed e r))
                 (length (concat (map (listed e) rs)))
         = skippedArtifactsCounter s
             + min (N - skippedArtifactsCounter s)
                 (length (listed e r) + length (concat (map (listed e) rs)))"
    using oa Cons.prems(3) by arith
  from Cons.IH[OF t Cons.prems(2) le] s' oa d m show ?case
    by simp
qed

section \<open>Claims\<close>

text \<open>
  C1. The recent-count rule comes before the age check and ends the filter for the
  artifact it applies to: such an artifact is not kept for removal, its age is not
  compared with the cutoff, and the outcome is the same whatever its creation timestamp.
  With skip-recent set to a count \<open>N\<close> and the counter at zero, of
  the artifacts met while the listings complete one after the other, the first \<open>N\<close> are
  skipped whatever their age: their age is not looked at and they are not removed. Only
  the artifacts after them go through the age filter, and those that pass it are handed to
  the removal step.
\<close>

theorem recent_count_before_age:
  assumes "skipRecent cfg = Num (of_nat N)" and "skippedArtifactsCounter s = 0"
  shows "(skipRecentArtifact cfg st \<longrightarrow>
            \<not> fst (keepArtifact cfg a st)
            \<and> ageChecked (trace (snd (keepArtifact cfg a st))) = ageChecked (trace st)
            \<and> keepArtifact cfg (a\<lparr>art_created_at := c\<rparr>) st = keepArtifact cfg a st)
       \<and> skippedRecent (trace (snd (settle e cfg rs s))) =
           skippedRecent (trace s) @ map ident (take N (concat (map (listed e) rs)))
       \<and> ageChecked (trace (snd (settle e cfg rs s))) =
           ageChecked (trace s) @ map ident (drop N (concat (map (listed e) rs)))
       \<and> removals (trace (snd (settle e cfg rs s))) =
           removals (trace s) @ map ident (filter (\<lambda>a. isBefore (art_created_at a) (maxAge cfg))
             (drop N (concat (map (listed e) rs))))"
proof -
  obtain res s' where t: "settle e cfg rs s = (res, s')"
    by (cases "settle e cfg rs s")
  from assms(2) have "skippedArtifactsCounter s \<le> N" by simp
  from settle_nat[OF t assms(1) this] t assms(2)
  have g: "skippedRecent (trace (snd (settle e cfg rs s))) =
           skippedRecent (trace s) @ map ident (take N (concat (map (listed e) rs)))
       \<and> ageChecked (trace (snd (settle e cfg rs s))) =
           ageChecked (trace s) @ map ident (drop N (concat (map (listed e) rs)))
       \<and> removals (trace (snd (settle e cfg rs s))) =
           removals (trace s) @ map ident (filter (\<lambda>a. isBefore (art_created_at a) (maxAge cfg))
             (drop N (concat (map (listed e) rs))))"
    by simp
  have k: "skipRecentArtifact cfg st \<longrightarrow>
            \<not> fst (keepArtifact cfg a st)
            \<and> ageChecked (trace (snd (keepArtifact cfg a st))) = ageChecked (trace st)
            \<and> keepArtifact cfg (a\<lparr>art_created_at := c\<rparr>) st = keepArtifact cfg a st"
    by (simp add: keepArtifact_def)
  from k g show ?thesis by blast
qed

theorem recent_count_before_age_witness:
  "skipRecent (sample_configs (Num 3) None) = Num (of_nat 3)
   \<and> skippedArtifactsCounter init = 0
   \<and> skippedRecent (trace (snd (settle (sample ''30 days'' ''3'' [])
        (sample_configs (Num 3) None) [r1] init))) = [(11, ''build''), (12, ''logs''), (13, ''docs'')]
   \<and> ageChecked (trace (snd (settle (sample ''30 days'' ''3'' [])
        (sample_configs (Num 3) None) [r1] init))) = [(14, ''dist''), (15, ''cover'')]
   \<and> removals (trace (snd (settle (sample ''30 days'' ''3'' [])
        (sample_configs (Num 3) None) [r1] init))) = [(14, ''dist'')]"
proof -
  have c: "skipRecent (sample_configs (Num 3) None) = Num (of_nat 3)"
    by (simp add: sample_configs_def)
  have z: "skippedArtifactsCounter init = 0"
    by (simp add: init_def)
  have l: "concat (map (listed (sample ''30 days'' ''3'' [])) [r1]) = [a11, a12, a13, a14, a15]"
    by (simp add: listed_def sample_def sample_artifacts_def r1_def)
  have m: "maxAge (sample_configs (Num 3) None) = Some (now0 + 1 - 30 * day)"
    by (simp add: sample_configs_def)
  from recent_count_before_age[OF c z, where e = "sample ''30 days'' ''3'' []" and rs = "[r1]"] c z
  show ?thesis
    unfolding l m
    by (simp add: init_def ident_def isBefore_def a11_def a12_def a13_def a14_def a15_def
        day_def now0_def)
qed

section \<open>Enumerating the runs\<close>

lemma isTooOld_spec: "isTooOld e r s = (spec_tooOld (clock e (reads s)) r, tick s)"
  by (simp add: isTooOld_def spec_tooOld_def isBefore_def tenDays_def split: option.splits)

lemma tick_reads: "tick s = s\<lparr>reads := reads s + 1\<rparr>"
  by (simp add: tick_def)

lemma find_isTooOld_none:
  "(\<forall>j<length data. \<not> spec_tooOld (clock e (reads s + j)) (data ! j)) \<Longrightarrow>
     find_isTooOld e data s = (None, s\<lparr>reads := reads s + length data\<rparr>)"
proof (induction data arbitrary: s)
  case Nil
  then show ?case by simp
next
  case (Cons r data)
  from Cons.prems have h: "\<not> spec_tooOld (clock e (reads s)) r" by force
  have "\<forall>j<length data. \<not> spec_tooOld (clock e (reads (tick s) + j)) (data ! j)"
  proof (intro allI impI)
    fix j assume "j < length data"
    with Cons.prems have "\<not> spec_tooOld (clock e (reads s + Suc j)) ((r # data) ! Suc j)"
      by (metis Suc_less_eq length_Cons)
    then show "\<not> spec_tooOld (clock e (reads (tick s) + j)) (data ! j)" by simp
  qed
  from Cons.IH[OF this] h show ?case
    by (simp add: isTooOld_spec tick_def)
qed

lemma find_isTooOld_some:
  "j < length data \<Longrightarrow> spec_tooOld (clock e (reads s + j)) (data ! j) \<Longrightarrow>
   (\<forall>i<j. \<not> spec_tooOld (clock e (reads s + i)) (data ! i)) \<Longrightarrow>
     find_isTooOld e data s = (Some (data ! j), s\<lparr>reads := reads s + Suc j\<rparr>)"
proof (induction data arbitrary: s j)
  case Nil
  then show ?case by simp
next
  case (Cons r data)
  show ?case
  proof (cases j)
    case 0
    with Cons.prems show ?thesis by (simp add: isTooOld_spec tick_def)
  next
    case (Suc k)
    with Cons.prems(3) have h: "\<not> spec_tooOld (clock e (reads s)) r" by force
    from Suc Cons.prems(1) have k: "k < length data" by simp
    from Suc Cons.prems(2) have t: "spec_tooOld (clock e (reads (tick s) + k)) (data ! k)" by simp
    have "\<forall>i<k. \<not> spec_tooOld (clock e (reads (tick s) + i)) (data ! i)"
    proof (intro allI impI)
      fix i assume "i < k"
      with Suc Cons.prems(3) have "\<not> spec_tooOld (clock e (reads s + Suc i)) ((r # data) ! Suc i)"
        by (metis Suc_less_eq)
      then show "\<not> spec_tooOld (clock e (reads (tick s) + i)) (data ! i)" by simp
    qed
    from Cons.IH[OF k t this] h Suc show ?thesis
      by (simp add: isTooOld_spec tick_def)
  qed
qed

lemma paginate_all:
  "(\<forall>j<length (concat ps). \<not> spec_tooOld (clock e (reads s + j)) (concat ps ! j)) \<Longrightarrow>
     paginate (map Inr ps) (onRunsPage e) s =
       (Inr (concat ps),
        s\<lparr>reads := reads s + length (concat ps),
          trace := trace s @ replicate (length ps) CallListRuns\<rparr>)"
proof (induction ps arbitrary: s)
  case Nil
  then show ?case by simp
next
  case (Cons p ps)
  let ?s1 = "emit CallListRuns s"
  have "\<forall>j<length p. \<not> spec_tooOld (clock e (reads ?s1 + j)) (p ! j)"
  proof (intro allI impI)
    fix j assume j: "j < length p"
    with Cons.prems have "\<not> spec_tooOld (clock e (reads s + j)) (concat (p # ps) ! j)" by simp
    with j show "\<not> spec_tooOld (clock e (reads ?s1 + j)) (p ! j)" by (simp add: nth_append)
  qed
  from find_isTooOld_none[OF this]
  have f: "find_isTooOld e p ?s1 = (None, ?s1\<lparr>reads := reads ?s1 + length p\<rparr>)" .
  let ?s2 = "?s1\<lparr>reads := reads ?s1 + length p\<rparr>"
  have "\<forall>j<length (concat ps). \<not> spec_tooOld (clock e (reads ?s2 + j)) (concat ps ! j)"
  proof (intro allI impI)
    fix j assume j: "j < length (concat ps)"
    then have "length p + j < length (concat (p # ps))" by simp
    with Cons.prems
    have "\<not> spec_tooOld (clock e (reads s + (length p + j))) (concat (p # ps) ! (length p + j))"
      by blast
    then show "\<not> spec_tooOld (clock e (reads ?s2 + j)) (concat ps ! j)"
      by (simp add: nth_append add.assoc)
  qed
  from Cons.IH[OF this] f show ?case
    by (simp add: onRunsPage_def emit_def replicate_app_Cons_same)
qed

lemma paginate_stop:
  "q < length ps \<Longrightarrow> j < length (ps ! q) \<Longrightarrow>
   spec_tooOld (clock e (reads s + length (concat (take q ps)) + j)) (ps ! q ! j) \<Longrightarrow>
   (\<forall>i < length (concat (take q ps)) + j. \<not> spec_tooOld (clock e (reads s + i)) (concat ps ! i)) \<Longrightarrow>
     paginate (map Inr ps) (onRunsPage e) s =
       (Inr (concat (take (Suc q) ps)),
        s\<lparr>reads := reads s + length (concat (take q ps)) + Suc j,
          trace := trace s @ replicate (Suc q) CallListRuns\<rparr>)"
proof (induction ps arbitrary: s q)
  case Nil
  then show ?case by simp
next
  case (Cons p ps)
  let ?s1 = "emit CallListRuns s"
  show ?case
  proof (cases q)
    case 0
    with Cons.prems have j: "j < length p" and t: "spec_tooOld (clock e (reads ?s1 + j)) (p ! j)"
      by simp_all
    have "\<forall>i<j. \<not> spec_tooOld (clock e (reads ?s1 + i)) (p ! i)"
    proof (intro allI impI)
      fix i assume i: "i < j"
      with 0 Cons.prems(4) have "\<not> spec_tooOld (clock e (reads s + i)) (concat (p # ps) ! i)"
        by simp
      with i j show "\<not> spec_tooOld (clock e (reads ?s1 + i)) (p ! i)"
        by (simp add: nth_append)
    qed
    from find_isTooOld_some[OF j t this] 0 show ?thesis
      by (simp add: onRunsPage_def emit_def)
  next
    case (Suc k)
    have "\<forall>i<length p. \<not> spec_tooOld (clock e (reads ?s1 + i)) (p ! i)"
    proof (intro allI impI)
      fix i assume i: "i < length p"
      with Suc Cons.prems(4) have "\<not> spec_tooOld (clock e (reads s + i)) (concat (p # ps) ! i)"
        by simp
      with i show "\<not> spec_tooOld (clock e (reads ?s1 + i)) (p ! i)"
        by (simp add: nth_append)
    qed
    from find_isTooOld_none[OF this]
    have f: "find_isTooOld e p ?s1 = (None, ?s1\<lparr>reads := reads ?s1 + length p\<rparr>)" .
    let ?s2 = "?s1\<lparr>reads := reads ?s1 + length p\<rparr>"
    from Suc Cons.prems(1,2) have k: "k < length ps" and j: "j < length (ps ! k)"
      by simp_all
    from Suc Cons.prems(3)
    have t: "spec_tooOld (clock e (reads ?s2 + length (concat (take k ps)) + j)) (ps ! k ! j)"
      by (simp add: add.assoc)
    have "\<forall>i < length (concat (take k ps)) + j.
            \<not> spec_tooOld (clock e (reads ?s2 + i)) (concat ps ! i)"
    proof (intro allI impI)
      fix i assume i: "i < length (concat (take k ps)) + j"
      with Suc have "length p + i < length (concat (take q (p # ps))) + j" by simp
      with Cons.prems(4)
      have "\<not> spec_tooOld (clock e (reads s + (length p + i))) (concat (p # ps) ! (length p + i))"
        by blast
      then show "\<not> spec_tooOld (clock e (reads ?s2 + i)) (concat ps ! i)"
        by (simp add: nth_append add.assoc)
    qed
    from Cons.IH[OF k j t this] f Suc show ?thesis
      by (simp add: onRunsPage_def emit_def replicate_app_Cons_same add.assoc)
  qed
qed

text \<open>
  C3. A run is too old exactly when its creation timestamp is before the instant the
  clock reads minus ten days; nothing of the configuration enters. The runs are examined
  in the order of their delivery, one reading of the clock each. When no run is too old,
  every page is requested and returned. When the first too-old run is on page \<open>q\<close>,
  the pages up to \<open>q\<close> are requested and returned whole, the runs of page \<open>q\<close> after
  it included, and no further page is requested.
\<close>

theorem too_old_stops_pagination:
  "(fst (isTooOld e r s) \<longleftrightarrow>
      (\<exists>c. wr_created_at r = Some c \<and> c < clock e (reads s) - 10 * day))
   \<and> ((\<forall>j<length (concat ps). \<not> spec_tooOld (clock e (reads s + j)) (concat ps ! j)) \<longrightarrow>
        fst (paginate (map Inr ps) (onRunsPage e) s) = Inr (concat ps)
        \<and> pageRequests (trace (snd (paginate (map Inr ps) (onRunsPage e) s)))
            = pageRequests (trace s) + length ps)
   \<and> (\<forall>q j. q < length ps \<and> j < length (ps ! q)
        \<and> spec_tooOld (clock e (reads s + length (concat (take q ps)) + j)) (ps ! q ! j)
        \<and> (\<forall>i < length (concat (take q ps)) + j.
              \<not> spec_tooOld (clock e (reads s + i)) (concat ps ! i)) \<longrightarrow>
        fst (paginate (map Inr ps) (onRunsPage e) s) = Inr (concat (take (Suc q) ps))
        \<and> pageRequests (trace (snd (paginate (map Inr ps) (onRunsPage e) s)))
            = pageRequests (trace s) + Suc q)"
proof (intro conjI allI impI)
  show "fst (isTooOld e r s) \<longleftrightarrow>
      (\<exists>c. wr_created_at r = Some c \<and> c < clock e (reads s) - 10 * day)"
    by (auto simp: isTooOld_spec spec_tooOld_def day_def split: option.splits)
next
  assume h: "\<forall>j<length (concat ps). \<not> spec_tooOld (clock e (reads s + j)) (concat ps ! j)"
  from paginate_all[OF h]
  show "fst (paginate (map Inr ps) (onRunsPage e) s) = Inr (concat ps)"
    and "pageRequests (trace (snd (paginate (map Inr ps) (onRunsPage e) s)))
            = pageRequests (trace s) + length ps"
    by (simp_all add: pageRequests_def)
next
  fix q j
  assume h: "q < length ps \<and> j < length (ps ! q)
        \<and> spec_tooOld (clock e (reads s + length (concat (take q ps)) + j)) (ps ! q ! j)
        \<and> (\<forall>i < length (concat (take q ps)) + j.
              \<not> spec_tooOld (clock e (reads s + i)) (concat ps ! i))"
  then have "paginate (map Inr ps) (onRunsPage e) s =
       (Inr (concat (take (Suc q) ps)),
        s\<lparr>reads := reads s + length (concat (take q ps)) + Suc j,
          trace := trace s @ replicate (Suc q) CallListRuns\<rparr>)"
    by (intro paginate_stop) simp_all
  then show "fst (paginate (map Inr ps) (onRunsPage e) s) = Inr (concat (take (Suc q) ps))"
    and "pageRequests (trace (snd (paginate (map Inr ps) (onRunsPage e) s)))
            = pageRequests (trace s) + Suc q"
    by (simp_all add: pageRequests_def)
qed


lemma sample_clock: "clock (sample age n t) k = now0 + int k"
  by (simp add: sample_def)

theorem too_old_stops_pagination_witness:
  "fst (isTooOld (sample ''30 days'' ''3'' ''true'') r4 init)
   \<and> \<not> spec_tooOld (clock (sample ''30 days'' ''3'' ''true'') 0) r1
   \<and> \<not> spec_tooOld (clock (sample ''30 days'' ''3'' ''true'') 1) r2
   \<and> \<not> spec_tooOld (clock (sample ''30 days'' ''3'' ''true'') 2) r3
   \<and> spec_tooOld (clock (sample ''30 days'' ''3'' ''true'') 3) r4
   \<and> fst (paginate (map Inr [[r1, r2], [r3]]) (onRunsPage (sample ''30 days'' ''3'' ''true'')) init)
       = Inr [r1, r2, r3]
   \<and> fst (paginate (map Inr [[r1, r2], [r3, r4], [r5]])
            (onRunsPage (sample ''30 days'' ''3'' ''true'')) init) = Inr [r1, r2, r3, r4]
   \<and> pageRequests (trace (snd (paginate (map Inr [[r1, r2], [r3, r4], [r5]])
            (onRunsPage (sample ''30 days'' ''3'' ''true'')) init))) = 2"
proof -
  let ?e = "sample ''30 days'' ''3'' ''true''"
  let ?P = "[[r1, r2], [r3, r4], [r5]]"
  have a: "\<exists>c. wr_created_at r4 = Some c \<and> c < clock ?e (reads init) - 10 * day"
    by (simp add: r4_def sample_clock init_def day_def)
  have b: "\<forall>j<length (concat [[r1, r2], [r3]]).
         \<not> spec_tooOld (clock ?e (reads init + j)) (concat [[r1, r2], [r3]] ! j)"
    by (simp add: sample_clock init_def spec_tooOld_def r1_def r2_def r3_def day_def
        numeral_3_eq_3 All_less_Suc)
  have c: "1 < length ?P \<and> 1 < length (?P ! 1)
       \<and> spec_tooOld (clock ?e (reads init + length (concat (take 1 ?P)) + 1)) (?P ! 1 ! 1)
       \<and> (\<forall>i < length (concat (take 1 ?P)) + 1.
             \<not> spec_tooOld (clock ?e (reads init + i)) (concat ?P ! i))"
    by (simp add: sample_clock init_def spec_tooOld_def r1_def r2_def r3_def r4_def day_def
        numeral_3_eq_3 All_less_Suc)
  from too_old_stops_pagination[of ?e r4 init "[[r1, r2], [r3]]"] a b
  have 1: "fst (isTooOld ?e r4 init)"
    and 2: "fst (paginate (map Inr [[r1, r2], [r3]]) (onRunsPage ?e) init) = Inr [r1, r2, r3]"
    by simp_all
  from too_old_stops_pagination[of ?e r4 init ?P] c
  have 3: "fst (paginate (map Inr ?P) (onRunsPage ?e) init) = Inr (concat (take (Suc 1) ?P))
        \<and> pageRequests (trace (snd (paginate (map Inr ?P) (onRunsPage ?e) init)))
            = pageRequests (trace init) + Suc 1"
    by blast
  from 3 have 4: "fst (paginate (map Inr ?P) (onRunsPage ?e) init) = Inr [r1, r2, r3, r4]"
    and 5: "pageRequests (trace (snd (paginate (map Inr ?P) (onRunsPage ?e) init))) = 2"
    by (simp_all add: init_def pageRequests_def)
  have 6: "\<not> spec_tooOld (clock ?e 0) r1 \<and> \<not> spec_tooOld (clock ?e 1) r2
      \<and> \<not> spec_tooOld (clock ?e 2) r3 \<and> spec_tooOld (clock ?e 3) r4"
    by (simp add: sample_clock spec_tooOld_def r1_def r2_def r3_def r4_def day_def)
  from 1 2 4 5 6 show ?thesis by blast
qed

section \<open>Filtering the runs\<close>

lemma tagStage_cases:
  assumes "tagStage e cfg s = (Inr taggedCommits, s')"
  shows "(skipTags cfg = Some True \<longrightarrow>
            (\<exists>shas. taggedCommits = Some shas \<and> listTags e = Inr shas))
       \<and> (skipTags cfg \<noteq> Some True \<longrightarrow> taggedCommits = None \<and> s' = s)"
  using assms
  by (auto simp: tagStage_def getTaggedCommits_def split: if_splits sum.splits)

lemma keepWorkflowRun_spec:
  assumes "skipTags cfg = Some True \<longrightarrow> taggedCommits \<noteq> None"
  shows "keepWorkflowRun e cfg taggedCommits r s =
     (if tagged cfg taggedCommits r then (Inr False, emit (LogSkipTagged (head_sha r)) s)
      else if spec_tooOld (clock e (reads s)) r
        then (Inr False, emit (LogSkipTooOld (head_sha r)) (tick s))
      else (Inr True, tick s))"
  using assms
  by (auto simp: keepWorkflowRun_def tagged_def includes_js_def isTooOld_spec
      split: option.splits)

lemma keepWorkflowRun_inactive:
  assumes "skipTags cfg \<noteq> Some True"
  shows "keepWorkflowRun e cfg taggedCommits r s =
     (if spec_tooOld (clock e (reads s)) r
        then (Inr False, emit (LogSkipTooOld (head_sha r)) (tick s))
      else (Inr True, tick s))"
  using assms by (simp add: keepWorkflowRun_def isTooOld_spec)

lemma filter_runs_spec:
  assumes "skipTags cfg = Some True \<longrightarrow> taggedCommits \<noteq> None"
  shows "fst (filter_runs e cfg taggedCommits wrs s) =
           Inr (spec_survivors e cfg taggedCommits (reads s) wrs)
       \<and> skippedArtifactsCounter (snd (filter_runs e cfg taggedCommits wrs s))
           = skippedArtifactsCounter s
       \<and> listCalls (trace (snd (filter_runs e cfg taggedCommits wrs s))) = listCalls (trace s)"
proof (induction wrs arbitrary: s)
  case Nil
  show ?case by (simp add: spec_survivors_def)
next
  case (Cons r wrs)
  note k = keepWorkflowRun_spec[OF assms, of e r s]
  show ?case
  proof (cases "tagged cfg taggedCommits r")
    case True
    with k Cons.IH[of "emit (LogSkipTagged (head_sha r)) s"] show ?thesis
      by (simp add: spec_survivors_def split_beta)
  next
    case False
    show ?thesis
    proof (cases "spec_tooOld (clock e (reads s)) r")
      case True
      with False k Cons.IH[of "emit (LogSkipTooOld (head_sha r)) (tick s)"] show ?thesis
        by (simp add: spec_survivors_def split_beta)
    next
      case no: False
      with False k Cons.IH[of "tick s"] show ?thesis
        by (simp add: spec_survivors_def split_beta)
    qed
  qed
qed

lemma keepArtifact_calls:
  "listCalls (trace (snd (keepArtifact cfg a s))) = listCalls (trace s)"
  "pageRequests (trace (snd (keepArtifact cfg a s))) = pageRequests (trace s)"
  "reads (snd (keepArtifact cfg a s)) = reads s"
  by (simp_all add: keepArtifact_def Let_def)

lemma filter_artifacts_calls:
  "listCalls (trace (snd (filter_artifacts cfg as s))) = listCalls (trace s)
   \<and> pageRequests (trace (snd (filter_artifacts cfg as s))) = pageRequests (trace s)
   \<and> reads (snd (filter_artifacts cfg as s)) = reads s"
proof (induction as arbitrary: s)
  case Nil
  show ?case by simp
next
  case (Cons a as)
  from Cons.IH[of "snd (keepArtifact cfg a s)"] keepArtifact_calls[of cfg a s]
  show ?case by (simp add: split_beta)
qed

lemma onArtifacts_calls:
  "listCalls (trace (snd (onArtifacts e cfg r s))) = listCalls (trace s)
   \<and> pageRequests (trace (snd (onArtifacts e cfg r s))) = pageRequests (trace s)
   \<and> reads (snd (onArtifacts e cfg r s)) = reads s"
  by (simp add: onArtifacts_def fold_removeArtifact_facts filter_artifacts_calls split_beta
      split: sum.splits)

lemma settle_calls:
  "listCalls (trace (snd (settle e cfg rs s))) = listCalls (trace s)
   \<and> pageRequests (trace (snd (settle e cfg rs s))) = pageRequests (trace s)
   \<and> reads (snd (settle e cfg rs s)) = reads s"
proof (induction rs arbitrary: s)
  case Nil
  show ?case by simp
next
  case (Cons r rs)
  from Cons.IH[of "snd (onArtifacts e cfg r s)"] onArtifacts_calls[of e cfg r s]
  show ?case by (simp add: split_beta)
qed

lemma fold_examine_facts:
  "listCalls (trace (fold examine rs s)) = listCalls (trace s) @ map wr_id rs"
  "skippedArtifactsCounter (fold examine rs s) = skippedArtifactsCounter s"
  "reads (fold examine rs s) = reads s"
  by (induction rs arbitrary: s; simp add: examine_def)+

lemma processRuns_calls:
  assumes "skipTags cfg = Some True \<longrightarrow> taggedCommits \<noteq> None"
  shows "listCalls (trace (snd (processRuns e cfg taggedCommits wrs s))) =
           listCalls (trace s) @ map wr_id (spec_survivors e cfg taggedCommits (reads s) wrs)"
proof -
  obtain res s1 where f: "filter_runs e cfg taggedCommits wrs s = (res, s1)"
    by (cases "filter_runs e cfg taggedCommits wrs s")
  with filter_runs_spec[OF assms, of e wrs s]
  have r: "res = Inr (spec_survivors e cfg taggedCommits (reads s) wrs)"
    and l: "listCalls (trace s1) = listCalls (trace s)"
    by simp_all
  from f r l show ?thesis
    by (simp add: processRuns_def settle_calls fold_examine_facts)
qed


text \<open>
  C4. With the tagged commits that the tag stage produced, the run-level filter excludes a
  run exactly when tag-skip is active and the head commit of the run is a tagged commit,
  or the run is too old at the reading of the clock. The tag test comes first: for a
  tagged run the clock is not read. When tag-skip is inactive there are no tagged commits,
  the membership test is not made, and only the age of the run decides. The listings of
  artifacts requested are those of the runs that pass, in their order, and no other.
\<close>

theorem run_level_filter:
  assumes "tagStage e cfg s0 = (Inr taggedCommits, s1)"
  shows "fst (keepWorkflowRun e cfg taggedCommits r s) =
           Inr (\<not> (tagged cfg taggedCommits r \<or> spec_tooOld (clock e (reads s)) r))
       \<and> (tagged cfg taggedCommits r \<longrightarrow>
            reads (snd (keepWorkflowRun e cfg taggedCommits r s)) = reads s)
       \<and> (skipTags cfg \<noteq> Some True \<longrightarrow>
            taggedCommits = None
            \<and> fst (keepWorkflowRun e cfg taggedCommits r s) =
                Inr (\<not> spec_tooOld (clock e (reads s)) r))
       \<and> fst (filter_runs e cfg taggedCommits wrs s) =
           Inr (spec_survivors e cfg taggedCommits (reads s) wrs)
       \<and> listCalls (trace (snd (processRuns e cfg taggedCommits wrs s))) =
           listCalls (trace s) @ map wr_id (spec_survivors e cfg taggedCommits (reads s) wrs)"
proof -
  from tagStage_cases[OF assms]
  have c: "skipTags cfg = Some True \<longrightarrow> taggedCommits \<noteq> None"
    and n: "skipTags cfg \<noteq> Some True \<longrightarrow> taggedCommits = None"
    by auto
  have 1: "fst (keepWorkflowRun e cfg taggedCommits r s) =
           Inr (\<not> (tagged cfg taggedCommits r \<or> spec_tooOld (clock e (reads s)) r))"
    by (simp add: keepWorkflowRun_spec[OF c])
  have 2: "tagged cfg taggedCommits r \<longrightarrow>
            reads (snd (keepWorkflowRun e cfg taggedCommits r s)) = reads s"
    by (simp add: keepWorkflowRun_spec[OF c])
  have 3: "skipTags cfg \<noteq> Some True \<longrightarrow>
            taggedCommits = None
            \<and> fst (keepWorkflowRun e cfg taggedCommits r s) =
                Inr (\<not> spec_tooOld (clock e (reads s)) r)"
    using n by (simp add: keepWorkflowRun_inactive)
  from filter_runs_spec[OF c, of e wrs s]
  have 4: "fst (filter_runs e cfg taggedCommits wrs s) =
           Inr (spec_survivors e cfg taggedCommits (reads s) wrs)"
    by simp
  note 5 = processRuns_calls[OF c, of e wrs s]
  from 1 2 3 4 5 show ?thesis by blast
qed

theorem run_level_filter_witness:
  "tagStage (sample ''30 days'' ''3'' ''true'') (sample_configs (Num 3) (Some True)) init
     = (Inr (Some [''bbb'']), emit CallListTags init)
   \<and> fst (keepWorkflowRun (sample ''30 days'' ''3'' ''true'') (sample_configs (Num 3) (Some True))
        (Some [''bbb'']) r2 init) = Inr False
   \<and> reads (snd (keepWorkflowRun (sample ''30 days'' ''3'' ''true'')
        (sample_configs (Num 3) (Some True)) (Some [''bbb'']) r2 init)) = 0
   \<and> fst (keepWorkflowRun (sample ''30 days'' ''3'' ''true'') (sample_configs (Num 3) (Some True))
        (Some [''bbb'']) r4 init) = Inr False
   \<and> fst (filter_runs (sample ''30 days'' ''3'' ''true'') (sample_configs (Num 3) (Some True))
        (Some [''bbb'']) [r1, r2, r3, r4] init) = Inr [r1, r3]
   \<and> listCalls (trace (snd (processRuns (sample ''30 days'' ''3'' ''true'')
        (sample_configs (Num 3) (Some True)) (Some [''bbb'']) [r1, r2, r3, r4] init))) = [1, 3]
   \<and> tagStage (sample ''30 days'' ''3'' []) (sample_configs (Num 3) None) init = (Inr None, init)
   \<and> fst (keepWorkflowRun (sample ''30 days'' ''3'' []) (sample_configs (Num 3) None)
        None r2 init) = Inr True"
proof -
  let ?e = "sample ''30 days'' ''3'' ''true''"
  let ?c = "sample_configs (Num 3) (Some True)"
  let ?f = "sample ''30 days'' ''3'' []"
  let ?d = "sample_configs (Num 3) None"
  have t: "tagStage ?e ?c init = (Inr (Some [''bbb'']), emit CallListTags init)"
    by (simp add: tagStage_def getTaggedCommits_def sample_def sample_configs_def)
  have u: "tagStage ?f ?d init = (Inr None, init)"
    by (simp add: tagStage_def sample_configs_def)
  have g2: "tagged ?c (Some [''bbb'']) r2"
    by (simp add: tagged_def sample_configs_def r2_def)
  have g4: "\<not> tagged ?c (Some [''bbb'']) r4 \<and> spec_tooOld (clock ?e (reads init)) r4"
    by (simp add: tagged_def sample_configs_def r4_def spec_tooOld_def sample_clock init_def
        day_def)
  have sv: "spec_survivors ?e ?c (Some [''bbb'']) (reads init) [r1, r2, r3, r4] = [r1, r3]"
    by (simp add: spec_survivors_def tagged_def sample_configs_def spec_tooOld_def sample_clock
        init_def r1_def r2_def r3_def r4_def day_def)
  have i: "skipTags ?d \<noteq> Some True \<and> \<not> spec_tooOld (clock ?f (reads init)) r2"
    by (simp add: sample_configs_def spec_tooOld_def sample_clock init_def r2_def day_def)
  from run_level_filter[OF t, of r2 init "[r1, r2, r3, r4]"] g2 sv
  have 1: "fst (keepWorkflowRun ?e ?c (Some [''bbb'']) r2 init) = Inr False"
    and 2: "reads (snd (keepWorkflowRun ?e ?c (Some [''bbb'']) r2 init)) = 0"
    and 3: "fst (filter_runs ?e ?c (Some [''bbb'']) [r1, r2, r3, r4] init) = Inr [r1, r3]"
    and 4: "listCalls (trace (snd (processRuns ?e ?c (Some [''bbb'']) [r1, r2, r3, r4] init)))
              = [1, 3]"
    by (simp_all add: init_def r1_def r3_def)
  from run_level_filter[OF t, of r4 init "[]"] g4
  have 5: "fst (keepWorkflowRun ?e ?c (Some [''bbb'']) r4 init) = Inr False"
    by simp
  from run_level_filter[OF u, of r2 init "[]"] i
  have 6: "fst (keepWorkflowRun ?f ?d None r2 init) = Inr True"
    by (simp add: tagged_def)
  from t 1 2 5 3 4 u 6 show ?thesis by blast
qed

section \<open>Resolving the configuration\<close>

lemma getConfigs_after_age:
  assumes "process_env e ''GITHUB_REPOSITORY'' = Some repository"
    and "readInput e (inputKeys_AGE e) True = Inr (Some ageInput)"
    and "destructure2 (split_js CHR '' '' ageInput) = (age, units)"
    and "readInput e (inputKeys_SKIP_RECENT e) False = Inr v"
  shows "getConfigs e s =
     (if truthy_str v \<and> isNaN (Number_js e v)
      then (Inl skipRecent_error,
            emit (LogMaxAge age units (moment_subtract e (clock e (reads s)) age units)) (tick s))
      else (case readInput e (inputKeys_SKIP_TAGS e) False of
              Inl err \<Rightarrow>
                (Inl err,
                 tick (emit (LogMaxAge age units (moment_subtract e (clock e (reads s)) age units))
                   (tick s)))
            | Inr t \<Rightarrow>
                (Inr \<lparr>owner = fst (destructure2 (split_js CHR ''/'' repository)),
                      repo = snd (destructure2 (split_js CHR ''/'' repository)),
                      perPage = 100,
                      maxAge = moment_subtract e (clock e (Suc (reads s))) age units,
                      skipTags = yn e t,
                      skipRecent = Number_js e v, retriesEnabled = True,
                      branchToConsider = ''master''\<rparr>,
                 tick (emit (LogMaxAge age units (moment_subtract e (clock e (reads s)) age units))
                   (tick s)))))"
  using assms
  by (simp add: getConfigs_def Let_def split_beta split: sum.splits)

lemma getConfigs_trace:
  "fst (getConfigs e s) = Inl err \<Longrightarrow>
     networkCalls (trace (snd (getConfigs e s))) = networkCalls (trace s)"
  by (auto simp: getConfigs_def Let_def split_beta networkCalls_def
      split: sum.splits option.splits if_splits)

lemma inactive_rule:
  "\<not> truthy (skipRecent cfg) \<or> negative (skipRecent cfg) \<Longrightarrow> \<not> skipRecentArtifact cfg st"
  by (cases "skipRecent cfg") (auto simp: skipRecentArtifact_def)


lemma sample_getConfigs:
  "getConfigs (sample ''30 days'' n t) init =
     (if n \<noteq> [] \<and> isNaN (sample_Number n)
      then (Inl skipRecent_error,
            \<lparr>reads = 1, skippedArtifactsCounter = 0,
             trace = [LogMaxAge (Some ''30'') (Some ''days'') (Some (now0 - 30 * day))]\<rparr>)
      else (Inr (sample_configs (if n = [] then Num 0 else sample_Number n) (sample_yn (Some t))),
            \<lparr>reads = 2, skippedArtifactsCounter = 0,
             trace = [LogMaxAge (Some ''30'') (Some ''days'') (Some (now0 - 30 * day))]\<rparr>))"
  by (simp add: getConfigs_def sample_def readInput_def inputKeys_AGE_def
      inputKeys_SKIP_RECENT_def inputKeys_SKIP_TAGS_def sample_getInput_def sample_subtract_def
      whole_number_def digit_of_def unit_length_def sample_configs_def init_def emit_def
      tick_def Let_def)

lemma keepArtifact_negative:
  assumes "negative (skipRecent cfg)"
  shows "keepArtifact cfg a s = keepArtifact (cfg\<lparr>skipRecent := Num 0\<rparr>) a s"
proof -
  from assms have 1: "\<not> skipRecentArtifact cfg s" by (simp add: inactive_rule)
  have 2: "\<not> skipRecentArtifact (cfg\<lparr>skipRecent := Num 0\<rparr>) s"
    by (simp add: skipRecentArtifact_def)
  from 1 2 show ?thesis by (simp add: keepArtifact_def)
qed

lemma filter_artifacts_negative:
  assumes "negative (skipRecent cfg)"
  shows "filter_artifacts cfg as s = filter_artifacts (cfg\<lparr>skipRecent := Num 0\<rparr>) as s"
proof (induction as arbitrary: s)
  case Nil
  show ?case by simp
next
  case (Cons a as)
  from keepArtifact_negative[OF assms, of a s] Cons.IH show ?case by simp
qed

lemma onArtifacts_negative:
  assumes "negative (skipRecent cfg)"
  shows "onArtifacts e cfg r s = onArtifacts e (cfg\<lparr>skipRecent := Num 0\<rparr>) r s"
  unfolding onArtifacts_def
  by (cases "listWorkflowRunArtifacts e (wr_id r)")
    (simp_all add: filter_artifacts_negative[OF assms])

lemma settle_negative:
  assumes "negative (skipRecent cfg)"
  shows "settle e cfg rs s = settle e (cfg\<lparr>skipRecent := Num 0\<rparr>) rs s"
proof (induction rs arbitrary: s)
  case Nil
  show ?case by simp
next
  case (Cons r rs)
  from onArtifacts_negative[OF assms, of e r s] Cons.IH show ?case by simp
qed

lemma keepArtifact_inactive:
  assumes "\<not> skipRecentArtifact cfg s"
  shows "skippedRecent (trace (snd (keepArtifact cfg a s))) = skippedRecent (trace s)"
    and "skippedArtifactsCounter (snd (keepArtifact cfg a s)) = skippedArtifactsCounter s"
  using assms by (simp_all add: keepArtifact_def Let_def)

lemma filter_artifacts_inactive:
  assumes "\<forall>st. \<not> skipRecentArtifact cfg st"
  shows "skippedRecent (trace (snd (filter_artifacts cfg as s))) = skippedRecent (trace s)
       \<and> skippedArtifactsCounter (snd (filter_artifacts cfg as s)) = skippedArtifactsCounter s"
proof (induction as arbitrary: s)
  case Nil
  show ?case by simp
next
  case (Cons a as)
  from assms have "\<not> skipRecentArtifact cfg s" by simp
  from keepArtifact_inactive[OF this, of a] Cons.IH[of "snd (keepArtifact cfg a s)"]
  show ?case by (simp add: split_beta)
qed

lemma onArtifacts_inactive:
  assumes "\<forall>st. \<not> skipRecentArtifact cfg st"
  shows "skippedRecent (trace (snd (onArtifacts e cfg r s))) = skippedRecent (trace s)
       \<and> skippedArtifactsCounter (snd (onArtifacts e cfg r s)) = skippedArtifactsCounter s"
  unfolding onArtifacts_def
  by (cases "listWorkflowRunArtifacts e (wr_id r)")
    (simp_all add: split_beta fold_removeArtifact_facts filter_artifacts_inactive[OF assms])

lemma settle_inactive:
  assumes "\<forall>st. \<not> skipRecentArtifact cfg st"
  shows "skippedRecent (trace (snd (settle e cfg rs s))) = skippedRecent (trace s)
       \<and> skippedArtifactsCounter (snd (settle e cfg rs s)) = skippedArtifactsCounter s"
proof (induction rs arbitrary: s)
  case Nil
  show ?case by simp
next
  case (Cons r rs)
  from onArtifacts_inactive[OF assms, of e r s] Cons.IH[of "snd (onArtifacts e cfg r s)"]
  show ?case by (simp add: split_beta)
qed


lemma getConfigs_accepts:
  assumes "process_env e ''GITHUB_REPOSITORY'' = Some repository"
    and "readInput e (inputKeys_AGE e) True = Inr (Some ageInput)"
    and "destructure2 (split_js CHR '' '' ageInput) = (age, units)"
    and "readInput e (inputKeys_SKIP_RECENT e) False = Inr v"
    and "\<not> (truthy_str v \<and> isNaN (Number_js e v))"
    and "readInput e (inputKeys_SKIP_TAGS e) False = Inr t"
  shows "fst (getConfigs e s) =
     Inr \<lparr>owner = fst (destructure2 (split_js CHR ''/'' repository)),
          repo = snd (destructure2 (split_js CHR ''/'' repository)),
          perPage = 100, maxAge = moment_subtract e (clock e (Suc (reads s))) age units,
          skipTags = yn e t,
          skipRecent = Number_js e v, retriesEnabled = True,
          branchToConsider = ''master''\<rparr>"
proof -
  note g = getConfigs_after_age[OF assms(1-4)]
  show ?thesis
    unfolding g using assms(5,6) by simp
qed

lemma getConfigs_rejects:
  assumes "process_env e ''GITHUB_REPOSITORY'' = Some repository"
    and "readInput e (inputKeys_AGE e) True = Inr (Some ageInput)"
    and "destructure2 (split_js CHR '' '' ageInput) = (age, units)"
    and "readInput e (inputKeys_SKIP_RECENT e) False = Inr v"
    and "truthy_str v \<and> isNaN (Number_js e v)"
  shows "fst (getConfigs e s) = Inl skipRecent_error"
proof -
  note g = getConfigs_after_age[OF assms(1-4)]
  show ?thesis
    unfolding g using assms(5) by simp
qed

text \<open>
  C5. What the code does. A non-empty skip-recent input for which \<open>Number\<close> gives \<open>NaN\<close>
  makes configuration resolution fail with the error whose message is
  \<open>skip-recent option must be type of number.\<close>, once the repository and the age have
  been read. Every other value passes the check: when the rest of the resolution succeeds,
  a non-empty input resolves to the number it parses as, whatever its sign and whether it
  is whole or not; an empty input resolves to zero, and an undefined one, which only the
  development environment gives, to \<open>NaN\<close>; in these two cases the recent-count rule is
  inactive.
\<close>

theorem skip_recent_must_parse:
  assumes "process_env e ''GITHUB_REPOSITORY'' = Some repository"
    and "readInput e (inputKeys_AGE e) True = Inr (Some ageInput)"
    and "destructure2 (split_js CHR '' '' ageInput) = (age, units)"
    and "readInput e (inputKeys_SKIP_RECENT e) False = Inr v"
  shows "(\<forall>str. v = Some str \<and> str \<noteq> [] \<and> isNaN (Number_str e str) \<longrightarrow>
            fst (getConfigs e s) = Inl (Err ''Error'' ''skip-recent option must be type of number.''))
       \<and> (\<forall>t. readInput e (inputKeys_SKIP_TAGS e) False = Inr t \<longrightarrow>
            (\<forall>str. v = Some str \<and> str \<noteq> [] \<and> \<not> isNaN (Number_str e str) \<longrightarrow>
               (\<exists>cfg. fst (getConfigs e s) = Inr cfg \<and> skipRecent cfg = Number_str e str))
          \<and> (v = Some [] \<longrightarrow>
               (\<exists>cfg. fst (getConfigs e s) = Inr cfg \<and> skipRecent cfg = Num 0
                  \<and> (\<forall>st. \<not> skipRecentArtifact cfg st)))
          \<and> (v = None \<longrightarrow>
               (\<exists>cfg. fst (getConfigs e s) = Inr cfg \<and> skipRecent cfg = NaN
                  \<and> (\<forall>st. \<not> skipRecentArtifact cfg st))))"
proof -
  note g = getConfigs_after_age[OF assms]
  have 1: "\<forall>str. v = Some str \<and> str \<noteq> [] \<and> isNaN (Number_str e str) \<longrightarrow>
            fst (getConfigs e s) = Inl (Err ''Error'' ''skip-recent option must be type of number.'')"
    by (simp add: g skipRecent_error_def)
  have 2: "\<forall>t. readInput e (inputKeys_SKIP_TAGS e) False = Inr t \<longrightarrow>
            (\<forall>str. v = Some str \<and> str \<noteq> [] \<and> \<not> isNaN (Number_str e str) \<longrightarrow>
               (\<exists>cfg. fst (getConfigs e s) = Inr cfg \<and> skipRecent cfg = Number_str e str))
          \<and> (v = Some [] \<longrightarrow>
               (\<exists>cfg. fst (getConfigs e s) = Inr cfg \<and> skipRecent cfg = Num 0
                  \<and> (\<forall>st. \<not> skipRecentArtifact cfg st)))
          \<and> (v = None \<longrightarrow>
               (\<exists>cfg. fst (getConfigs e s) = Inr cfg \<and> skipRecent cfg = NaN
                  \<and> (\<forall>st. \<not> skipRecentArtifact cfg st)))"
    by (simp add: g inactive_rule)
  from 1 2 show ?thesis by blast
qed

theorem skip_recent_must_parse_witness:
  "fst (getConfigs (sample ''30 days'' ''abc'' []) init)
     = Inl (Err ''Error'' ''skip-recent option must be type of number.'')
   \<and> (\<exists>cfg. fst (getConfigs (sample ''30 days'' ''2.5'' []) init) = Inr cfg
         \<and> skipRecent cfg = Num (5 / 2))
   \<and> (\<exists>cfg. fst (getConfigs (sample ''30 days'' [] []) init) = Inr cfg
         \<and> skipRecent cfg = Num 0 \<and> \<not> skipRecentArtifact cfg init)"
proof -
  have h: "process_env (sample ''30 days'' n []) ''GITHUB_REPOSITORY'' = Some ''octo/repo''"
    "readInput (sample ''30 days'' n []) (inputKeys_AGE (sample ''30 days'' n [])) True
       = Inr (Some ''30 days'')"
    "readInput (sample ''30 days'' n [])
       (inputKeys_SKIP_RECENT (sample ''30 days'' n [])) False = Inr (Some n)"
    "readInput (sample ''30 days'' n []) (inputKeys_SKIP_TAGS (sample ''30 days'' n [])) False
       = Inr (Some [])" for n
    by (simp_all add: sample_def readInput_def inputKeys_AGE_def inputKeys_SKIP_RECENT_def
        inputKeys_SKIP_TAGS_def sample_getInput_def)
  have d: "destructure2 (split_js CHR '' '' ''30 days'') = (Some ''30'', Some ''days'')"
    by simp
  have n: "isNaN (Number_str (sample ''30 days'' ''abc'' []) ''abc'')"
    "\<not> isNaN (Number_str (sample ''30 days'' ''2.5'' []) ''2.5'')"
    "Number_str (sample ''30 days'' ''2.5'' []) ''2.5'' = Num (5 / 2)"
    by (simp_all add: sample_def sample_Number_def)
  from skip_recent_must_parse[OF h(1)[of "''abc''"] h(2)[of "''abc''"] d h(3)[of "''abc''"],
      where s = init] n
  have 1: "fst (getConfigs (sample ''30 days'' ''abc'' []) init)
     = Inl (Err ''Error'' ''skip-recent option must be type of number.'')"
    by simp
  from skip_recent_must_parse[OF h(1)[of "''2.5''"] h(2)[of "''2.5''"] d h(3)[of "''2.5''"],
      where s = init] h(4)[of "''2.5''"] n
  have 2: "\<exists>cfg. fst (getConfigs (sample ''30 days'' ''2.5'' []) init) = Inr cfg
         \<and> skipRecent cfg = Num (5 / 2)"
    by simp
  from skip_recent_must_parse[OF h(1)[of "[]"] h(2)[of "[]"] d h(3)[of "[]"],
      where s = init] h(4)[of "[]"]
  have 3: "\<exists>cfg. fst (getConfigs (sample ''30 days'' [] []) init) = Inr cfg
         \<and> skipRecent cfg = Num 0 \<and> \<not> skipRecentArtifact cfg init"
    by auto
  from 1 2 3 show ?thesis by blast
qed

theorem negative_skip_recent_accepted:
  "map_sum id skipRecent (fst (getConfigs (sample ''30 days'' ''-1'' []) init)) = Inr (Num (- 1))"
  by (simp add: sample_getConfigs sample_Number_def sample_configs_def)

lemma main_config_error:
  assumes "fst (getConfigs e init) = Inl err"
  shows "fst (main e) = Failed (toString err)"
    and "networkCalls (snd (main e)) = []"
proof -
  obtain s where g: "getConfigs e init = (Inl err, s)"
    using assms by (cases "getConfigs e init") simp
  from g show "fst (main e) = Failed (toString err)"
    by (simp add: main_def run_def)
  from getConfigs_trace[OF assms] g show "networkCalls (snd (main e)) = []"
    by (simp add: main_def run_def init_def networkCalls_def)
qed

text \<open>
  C6. What the code does. The tokens of the age input are not validated, and the time
  library does not raise on tokens it cannot read as a duration. Whatever the tokens are,
  once the inputs have been read and skip-recent has passed its check, configuration
  resolution succeeds, and the cutoff is the moment the library returns at the second
  reading of the clock: the current instant, when the library subtracts nothing. When
  configuration resolution does fail, the process fails with that error and no request has
  been made.
\<close>

theorem age_is_not_validated:
  "(process_env e ''GITHUB_REPOSITORY'' = Some repository
      \<and> readInput e (inputKeys_AGE e) True = Inr (Some ageInput)
      \<and> destructure2 (split_js CHR '' '' ageInput) = (age, units)
      \<and> readInput e (inputKeys_SKIP_RECENT e) False = Inr v
      \<and> \<not> (truthy_str v \<and> isNaN (Number_js e v))
      \<and> readInput e (inputKeys_SKIP_TAGS e) False = Inr t \<longrightarrow>
      (\<exists>cfg. fst (getConfigs e init) = Inr cfg
         \<and> maxAge cfg = moment_subtract e (clock e 1) age units))
   \<and> (fst (getConfigs e init) = Inl err \<longrightarrow>
        fst (main e) = Failed (toString err) \<and> networkCalls (snd (main e)) = [])"
proof (intro conjI impI)
  assume h: "process_env e ''GITHUB_REPOSITORY'' = Some repository
      \<and> readInput e (inputKeys_AGE e) True = Inr (Some ageInput)
      \<and> destructure2 (split_js CHR '' '' ageInput) = (age, units)
      \<and> readInput e (inputKeys_SKIP_RECENT e) False = Inr v
      \<and> \<not> (truthy_str v \<and> isNaN (Number_js e v))
      \<and> readInput e (inputKeys_SKIP_TAGS e) False = Inr t"
  then have a1: "process_env e ''GITHUB_REPOSITORY'' = Some repository"
    and a2: "readInput e (inputKeys_AGE e) True = Inr (Some ageInput)"
    and a3: "destructure2 (split_js CHR '' '' ageInput) = (age, units)"
    and a4: "readInput e (inputKeys_SKIP_RECENT e) False = Inr v"
    and a5: "\<not> (truthy_str v \<and> isNaN (Number_js e v))"
    and a6: "readInput e (inputKeys_SKIP_TAGS e) False = Inr t"
    by blast+
  have "fst (getConfigs e init) =
     Inr \<lparr>owner = fst (destructure2 (split_js CHR ''/'' repository)),
          repo = snd (destructure2 (split_js CHR ''/'' repository)),
          perPage = 100, maxAge = moment_subtract e (clock e (Suc (reads init))) age units,
          skipTags = yn e t,
          skipRecent = Number_js e v, retriesEnabled = True,
          branchToConsider = ''master''\<rparr>"
    by (rule getConfigs_accepts[OF a1 a2 a3 a4 a5 a6])
  then show "\<exists>cfg. fst (getConfigs e init) = Inr cfg
         \<and> maxAge cfg = moment_subtract e (clock e 1) age units"
    by (simp add: init_def)
next
  assume "fst (getConfigs e init) = Inl err"
  then show "fst (main e) = Failed (toString err)" and "networkCalls (snd (main e)) = []"
    by (rule main_config_error)+
qed

theorem age_is_not_validated_witness:
  "(\<exists>cfg. fst (getConfigs (sample ''3 fortnights'' ''3'' ''true'') init) = Inr cfg
      \<and> maxAge cfg = Some (now0 + 1))
   \<and> fst (getConfigs (sample ''30 days'' ''abc'' ''true'') init) = Inl skipRecent_error
   \<and> fst (main (sample ''30 days'' ''abc'' ''true''))
       = Failed ''Error: skip-recent option must be type of number.''
   \<and> networkCalls (snd (main (sample ''30 days'' ''abc'' ''true''))) = []"
proof -
  let ?e = "sample ''3 fortnights'' ''3'' ''true''"
  let ?f = "sample ''30 days'' ''abc'' ''true''"
  have h: "process_env ?e ''GITHUB_REPOSITORY'' = Some ''octo/repo''
      \<and> readInput ?e (inputKeys_AGE ?e) True = Inr (Some ''3 fortnights'')
      \<and> destructure2 (split_js CHR '' '' ''3 fortnights'') = (Some ''3'', Some ''fortnights'')
      \<and> readInput ?e (inputKeys_SKIP_RECENT ?e) False = Inr (Some ''3'')
      \<and> \<not> (truthy_str (Some ''3'') \<and> isNaN (Number_js ?e (Some ''3'')))
      \<and> readInput ?e (inputKeys_SKIP_TAGS ?e) False = Inr (Some ''true'')"
    by (simp add: sample_def readInput_def inputKeys_AGE_def inputKeys_SKIP_RECENT_def
        inputKeys_SKIP_TAGS_def sample_getInput_def sample_Number_def)
  have m: "moment_subtract ?e (clock ?e 1) (Some ''3'') (Some ''fortnights'') = Some (now0 + 1)"
    by (simp add: sample_def sample_subtract_def whole_number_def digit_of_def
        unit_length_def Let_def)
  from age_is_not_validated[where e = ?e and repository = "''octo/repo''"
      and ageInput = "''3 fortnights''" and age = "Some ''3''" and units = "Some ''fortnights''"
      and v = "Some ''3''" and t = "Some ''true''"] h m
  have 1: "\<exists>cfg. fst (getConfigs ?e init) = Inr cfg \<and> maxAge cfg = Some (now0 + 1)"
    by simp
  have 2: "fst (getConfigs ?f init) = Inl skipRecent_error"
    by (simp add: sample_getConfigs sample_Number_def)
  from age_is_not_validated[where e = ?f and err = skipRecent_error] 2
  have 3: "fst (main ?f) = Failed ''Error: skip-recent option must be type of number.''"
    and 4: "networkCalls (snd (main ?f)) = []"
    by (simp_all add: toString_def skipRecent_error_def)
  from 1 2 3 4 show ?thesis by (intro conjI)
qed

theorem unparsable_age_is_accepted:
  "sample_subtract (now0 + 1) (Some ''3'') (Some ''fortnights'') = Some (now0 + 1)
   \<and> map_sum id maxAge (fst (getConfigs (sample ''3 fortnights'' ''3'' ''true'') init))
       = Inr (Some (now0 + 1))
   \<and> fst (main (sample ''3 fortnights'' ''3'' ''true'')) = Completed
   \<and> deleteCalls (snd (main (sample ''3 fortnights'' ''3'' ''true''))) = [12, 13, 14, 15]"
proof -
  have 1: "sample_subtract (now0 + 1) (Some ''3'') (Some ''fortnights'') = Some (now0 + 1)"
    by (simp add: sample_subtract_def whole_number_def digit_of_def unit_length_def
        Let_def)
  have 2: "map_sum id maxAge (fst (getConfigs (sample ''3 fortnights'' ''3'' ''true'') init))
       = Inr (Some (now0 + 1))"
    by code_simp
  have 3: "fst (main (sample ''3 fortnights'' ''3'' ''true'')) = Completed"
    by code_simp
  have 4: "deleteCalls (snd (main (sample ''3 fortnights'' ''3'' ''true''))) = [12, 13, 14, 15]"
    by code_simp
  from 1 2 3 4 show ?thesis by (intro conjI)
qed

text \<open>
  C10. A non-empty skip-recent input that parses as a number, whatever number, is
  accepted: when the rest of the resolution succeeds, the configuration holds the number as
  parsed. When that number is negative the recent-count rule never applies: the fan-out
  does what it does with skip-recent zero, skips no artifact as recent and leaves the
  counter alone.
\<close>

theorem numeric_skip_recent_accepted:
  assumes "process_env e ''GITHUB_REPOSITORY'' = Some repository"
    and "readInput e (inputKeys_AGE e) True = Inr (Some ageInput)"
    and "destructure2 (split_js CHR '' '' ageInput) = (age, units)"
    and "readInput e (inputKeys_SKIP_RECENT e) False = Inr (Some str)"
    and "str \<noteq> []" and "\<not> isNaN (Number_str e str)"
    and "readInput e (inputKeys_SKIP_TAGS e) False = Inr t"
  shows "\<exists>cfg. fst (getConfigs e s) = Inr cfg \<and> skipRecent cfg = Number_str e str
           \<and> (negative (Number_str e str) \<longrightarrow>
                (\<forall>rs st. \<not> skipRecentArtifact cfg st
                   \<and> settle e cfg rs st = settle e (cfg\<lparr>skipRecent := Num 0\<rparr>) rs st
                   \<and> skippedRecent (trace (snd (settle e cfg rs st))) = skippedRecent (trace st)
                   \<and> skippedArtifactsCounter (snd (settle e cfg rs st))
                       = skippedArtifactsCounter st))"
proof -
  have n: "\<not> (truthy_str (Some str) \<and> isNaN (Number_js e (Some str)))"
    using assms(5,6) by simp
  define cfg where "cfg =
     \<lparr>owner = fst (destructure2 (split_js CHR ''/'' repository)),
      repo = snd (destructure2 (split_js CHR ''/'' repository)),
      perPage = 100, maxAge = moment_subtract e (clock e (Suc (reads s))) age units,
      skipTags = yn e t,
      skipRecent = Number_js e (Some str), retriesEnabled = True,
      branchToConsider = ''master''\<rparr>"
  from getConfigs_accepts[OF assms(1-4) n assms(7)]
  have c1: "fst (getConfigs e s) = Inr cfg" by (simp add: cfg_def)
  from assms(5) have c2: "skipRecent cfg = Number_str e str" by (simp add: cfg_def)
  have r: "negative (Number_str e str) \<longrightarrow>
                (\<forall>rs st. \<not> skipRecentArtifact cfg st
                   \<and> settle e cfg rs st = settle e (cfg\<lparr>skipRecent := Num 0\<rparr>) rs st
                   \<and> skippedRecent (trace (snd (settle e cfg rs st))) = skippedRecent (trace st)
                   \<and> skippedArtifactsCounter (snd (settle e cfg rs st))
                       = skippedArtifactsCounter st)"
  proof (intro impI allI conjI)
    fix rs st
    assume "negative (Number_str e str)"
    with c2 have neg: "negative (skipRecent cfg)" by simp
    then have i: "\<forall>st. \<not> skipRecentArtifact cfg st" by (simp add: inactive_rule)
    from i show "\<not> skipRecentArtifact cfg st" by simp
    from neg show "settle e cfg rs st = settle e (cfg\<lparr>skipRecent := Num 0\<rparr>) rs st"
      by (rule settle_negative)
    from settle_inactive[OF i, of e rs st]
    show "skippedRecent (trace (snd (settle e cfg rs st))) = skippedRecent (trace st)"
      and "skippedArtifactsCounter (snd (settle e cfg rs st)) = skippedArtifactsCounter st"
      by simp_all
  qed
  show ?thesis
  proof (intro exI[of _ cfg] conjI)
    show "fst (getConfigs e s) = Inr cfg" by (rule c1)
    show "skipRecent cfg = Number_str e str" by (rule c2)
    show "negative (Number_str e str) \<longrightarrow>
                (\<forall>rs st. \<not> skipRecentArtifact cfg st
                   \<and> settle e cfg rs st = settle e (cfg\<lparr>skipRecent := Num 0\<rparr>) rs st
                   \<and> skippedRecent (trace (snd (settle e cfg rs st))) = skippedRecent (trace st)
                   \<and> skippedArtifactsCounter (snd (settle e cfg rs st))
                       = skippedArtifactsCounter st)"
      by (rule r)
  qed
qed

theorem numeric_skip_recent_accepted_witness:
  "\<exists>cfg. fst (getConfigs (sample ''30 days'' ''-1'' []) init) = Inr cfg
     \<and> skipRecent cfg = Num (- 1)
     \<and> skippedRecent (trace (snd (settle (sample ''30 days'' ''-1'' []) cfg [r1, r3] init))) = []
     \<and> skippedArtifactsCounter (snd (settle (sample ''30 days'' ''-1'' []) cfg [r1, r3] init)) = 0"
proof -
  let ?e = "sample ''30 days'' ''-1'' []"
  have h: "process_env ?e ''GITHUB_REPOSITORY'' = Some ''octo/repo''"
    "readInput ?e (inputKeys_AGE ?e) True = Inr (Some ''30 days'')"
    "destructure2 (split_js CHR '' '' ''30 days'') = (Some ''30'', Some ''days'')"
    "readInput ?e (inputKeys_SKIP_RECENT ?e) False = Inr (Some ''-1'')"
    "''-1'' \<noteq> []" "\<not> isNaN (Number_str ?e ''-1'')"
    "readInput ?e (inputKeys_SKIP_TAGS ?e) False = Inr (Some [])"
    by (simp_all add: sample_def readInput_def inputKeys_AGE_def inputKeys_SKIP_RECENT_def
        inputKeys_SKIP_TAGS_def sample_getInput_def sample_Number_def)
  have n: "Number_str ?e ''-1'' = Num (- 1)"
    by (simp add: sample_def sample_Number_def)
  have g: "negative (Num (- 1))" by simp
  from numeric_skip_recent_accepted[OF h, where s = init] g
  obtain cfg where c: "fst (getConfigs ?e init) = Inr cfg" "skipRecent cfg = Num (- 1)"
    "\<forall>rs st. skippedRecent (trace (snd (settle ?e cfg rs st))) = skippedRecent (trace st)
       \<and> skippedArtifactsCounter (snd (settle ?e cfg rs st)) = skippedArtifactsCounter st"
    unfolding n by blast
  from c(3) have "skippedRecent (trace (snd (settle ?e cfg [r1, r3] init))) = skippedRecent (trace init)
     \<and> skippedArtifactsCounter (snd (settle ?e cfg [r1, r3] init)) = skippedArtifactsCounter init"
    by blast
  then have "skippedRecent (trace (snd (settle ?e cfg [r1, r3] init))) = []
     \<and> skippedArtifactsCounter (snd (settle ?e cfg [r1, r3] init)) = 0"
    by (simp add: init_def)
  with c(1,2) show ?thesis by blast
qed

section \<open>The counter before the fan-out\<close>

lemma getConfigs_quiet:
  "skippedArtifactsCounter (snd (getConfigs e s)) = skippedArtifactsCounter s
   \<and> skippedRecent (trace (snd (getConfigs e s))) = skippedRecent (trace s)"
  by (simp add: getConfigs_def Let_def split_beta split: sum.splits option.splits)

lemma tagStage_quiet:
  "skippedArtifactsCounter (snd (tagStage e cfg s)) = skippedArtifactsCounter s
   \<and> skippedRecent (trace (snd (tagStage e cfg s))) = skippedRecent (trace s)"
  by (simp add: tagStage_def getTaggedCommits_def split: sum.splits)

lemma find_isTooOld_quiet:
  "skippedArtifactsCounter (snd (find_isTooOld e data s)) = skippedArtifactsCounter s
   \<and> trace (snd (find_isTooOld e data s)) = trace s"
  by (induction data arbitrary: s) (simp_all add: isTooOld_spec)

lemma onRunsPage_quiet:
  "skippedArtifactsCounter (snd (onRunsPage e data s)) = skippedArtifactsCounter s
   \<and> skippedRecent (trace (snd (onRunsPage e data s))) = skippedRecent (trace s)"
  using find_isTooOld_quiet[of e data s] by (simp add: onRunsPage_def split_beta)

lemma paginate_preserves:
  assumes "\<And>data st. skippedArtifactsCounter (snd (mapFn data st)) = skippedArtifactsCounter st
             \<and> skippedRecent (trace (snd (mapFn data st))) = skippedRecent (trace st)"
  shows "skippedArtifactsCounter (snd (paginate pages mapFn s)) = skippedArtifactsCounter s
       \<and> skippedRecent (trace (snd (paginate pages mapFn s))) = skippedRecent (trace s)"
proof (induction pages arbitrary: s)
  case Nil
  show ?case by simp
next
  case (Cons p pages)
  show ?case
  proof (cases p)
    case (Inl err)
    then show ?thesis by simp
  next
    case (Inr data)
    obtain earlyExit results s2 where m: "mapFn data (emit CallListRuns s) = ((earlyExit, results), s2)"
      by (metis prod.collapse)
    from assms[of data "emit CallListRuns s"] m
    have q: "skippedArtifactsCounter s2 = skippedArtifactsCounter s"
      "skippedRecent (trace s2) = skippedRecent (trace s)"
      by simp_all
    from Inr m q Cons.IH[of s2] show ?thesis
      by (simp add: Let_def split_beta split: sum.splits)
  qed
qed

lemma paginate_quiet:
  "skippedArtifactsCounter (snd (paginate pages (onRunsPage e) s)) = skippedArtifactsCounter s
   \<and> skippedRecent (trace (snd (paginate pages (onRunsPage e) s))) = skippedRecent (trace s)"
  by (rule paginate_preserves) (rule onRunsPage_quiet)

lemma keepWorkflowRun_quiet:
  "skippedArtifactsCounter (snd (keepWorkflowRun e cfg tc r s)) = skippedArtifactsCounter s
   \<and> skippedRecent (trace (snd (keepWorkflowRun e cfg tc r s))) = skippedRecent (trace s)"
  by (simp add: keepWorkflowRun_def isTooOld_spec split: sum.splits)

lemma filter_runs_quiet:
  "skippedArtifactsCounter (snd (filter_runs e cfg tc wrs s)) = skippedArtifactsCounter s
   \<and> skippedRecent (trace (snd (filter_runs e cfg tc wrs s))) = skippedRecent (trace s)"
proof (induction wrs arbitrary: s)
  case Nil
  show ?case by simp
next
  case (Cons r wrs)
  from keepWorkflowRun_quiet[of e cfg tc r s]
    Cons.IH[of "snd (keepWorkflowRun e cfg tc r s)"]
  show ?case by (simp add: split_beta split: sum.splits)
qed

lemma fold_examine_quiet:
  "skippedRecent (trace (fold examine rs s)) = skippedRecent (trace s)"
  by (induction rs arbitrary: s) (simp_all add: examine_def)

lemma run_stages:
  assumes "getConfigs e s = (Inr cfg, s1)"
    and "tagStage e cfg s1 = (Inr taggedCommits, s2)"
    and "paginate (listRepoWorkflowRuns e) (onRunsPage e) s2 = (Inr workflowRuns, s3)"
    and "filter_runs e cfg taggedCommits workflowRuns s3 = (Inr survivors, s4)"
  shows "run e s =
           settle e cfg (completion_order (schedule e) survivors) (fold examine survivors s4)"
    and "skippedArtifactsCounter (fold examine survivors s4) = skippedArtifactsCounter s"
    and "skippedRecent (trace (fold examine survivors s4)) = skippedRecent (trace s)"
proof -
  from assms show "run e s =
           settle e cfg (completion_order (schedule e) survivors) (fold examine survivors s4)"
    by (simp add: run_def processRuns_def)
  from getConfigs_quiet[of e s] assms(1)
  have 1: "skippedArtifactsCounter s1 = skippedArtifactsCounter s"
    "skippedRecent (trace s1) = skippedRecent (trace s)" by simp_all
  from tagStage_quiet[of e cfg s1] assms(2)
  have 2: "skippedArtifactsCounter s2 = skippedArtifactsCounter s1"
    "skippedRecent (trace s2) = skippedRecent (trace s1)" by simp_all
  from paginate_quiet[of "listRepoWorkflowRuns e" e s2] assms(3)
  have 3: "skippedArtifactsCounter s3 = skippedArtifactsCounter s2"
    "skippedRecent (trace s3) = skippedRecent (trace s2)" by simp_all
  from filter_runs_quiet[of e cfg taggedCommits workflowRuns s3] assms(4)
  have 4: "skippedArtifactsCounter s4 = skippedArtifactsCounter s3"
    "skippedRecent (trace s4) = skippedRecent (trace s3)" by simp_all
  from 1 2 3 4 show "skippedArtifactsCounter (fold examine survivors s4) = skippedArtifactsCounter s"
    by (simp add: fold_examine_facts)
  from 1 2 3 4 show "skippedRecent (trace (fold examine survivors s4)) = skippedRecent (trace s)"
    by (simp add: fold_examine_quiet)
qed

lemma keepArtifact_counter:
  "skippedArtifactsCounter (snd (keepArtifact cfg a st)) =
     skippedArtifactsCounter st + (if skipRecentArtifact cfg st then 1 else 0)"
  by (simp add: keepArtifact_def Let_def)

text \<open>
  C9. What the code does. The counter starts at zero and is still zero when the fan-out
  begins; each artifact that the recent-count rule excludes adds exactly one to it, and no
  other step changes it. When skip-recent is a count \<open>N\<close>, a non-negative integer, the
  counter never exceeds \<open>N\<close>, and at the end of the invocation it equals the number of
  artifacts excluded by the rule and the minimum of \<open>N\<close> and the number of artifacts that
  the listings delivered.
\<close>

theorem counter_bounded_by_count:
  assumes "getConfigs e init = (Inr cfg, s1)"
    and "tagStage e cfg s1 = (Inr taggedCommits, s2)"
    and "paginate (listRepoWorkflowRuns e) (onRunsPage e) s2 = (Inr workflowRuns, s3)"
    and "filter_runs e cfg taggedCommits workflowRuns s3 = (Inr survivors, s4)"
    and "skipRecent cfg = Num (of_nat N)"
  shows "skippedArtifactsCounter init = 0
       \<and> skippedArtifactsCounter (fold examine survivors s4) = 0
       \<and> (\<forall>a st. skippedArtifactsCounter (snd (keepArtifact cfg a st)) =
             skippedArtifactsCounter st + (if skipRecentArtifact cfg st then 1 else 0))
       \<and> (\<forall>a st. skippedArtifactsCounter st \<le> N \<longrightarrow>
             skippedArtifactsCounter (snd (keepArtifact cfg a st)) \<le> N)
       \<and> skippedArtifactsCounter (snd (run e init)) \<le> N
       \<and> skippedArtifactsCounter (snd (run e init))
           = length (skippedRecent (trace (snd (run e init))))
       \<and> skippedArtifactsCounter (snd (run e init))
           = min N (length (concat (map (listed e) (completion_order (schedule e) survivors))))"
proof -
  let ?order = "completion_order (schedule e) survivors"
  let ?s5 = "fold examine survivors s4"
  note st = run_stages[OF assms(1-4)]
  have z: "skippedArtifactsCounter init = 0" by (simp add: init_def)
  with st(2) have z5: "skippedArtifactsCounter ?s5 = 0" by simp
  from st(3) have t5: "skippedRecent (trace ?s5) = []" by (simp add: init_def)
  obtain res s' where t: "settle e cfg ?order ?s5 = (res, s')"
    by (cases "settle e cfg ?order ?s5")
  from z5 have le: "skippedArtifactsCounter ?s5 \<le> N" by simp
  from settle_nat[OF t assms(5) le] z5 t5
  have c: "skippedArtifactsCounter s' = min N (length (concat (map (listed e) ?order)))"
    and k: "skippedRecent (trace s') = map ident (take N (concat (map (listed e) ?order)))"
    by simp_all
  from st(1) t have r: "snd (run e init) = s'" by simp
  have step: "\<forall>a st. skippedArtifactsCounter (snd (keepArtifact cfg a st)) =
             skippedArtifactsCounter st + (if skipRecentArtifact cfg st then 1 else 0)"
    by (simp add: keepArtifact_counter)
  have inv: "\<forall>a st. skippedArtifactsCounter st \<le> N \<longrightarrow>
             skippedArtifactsCounter (snd (keepArtifact cfg a st)) \<le> N"
    using skip_nat[OF assms(5)] by (simp add: keepArtifact_counter)
  from c r have b: "skippedArtifactsCounter (snd (run e init)) \<le> N" by simp
  from c k r have n: "skippedArtifactsCounter (snd (run e init))
           = length (skippedRecent (trace (snd (run e init))))"
    by (simp add: min.commute)
  from c r have m: "skippedArtifactsCounter (snd (run e init))
           = min N (length (concat (map (listed e) ?order)))"
    by simp
  from z z5 step inv b n m show ?thesis by (intro conjI)
qed


theorem counter_bounded_by_count_witness:
  "getConfigs (sample ''30 days'' ''3'' ''true'') init
     = (Inr (sample_configs (Num 3) (Some True)),
        snd (getConfigs (sample ''30 days'' ''3'' ''true'') init))
   \<and> skipRecent (sample_configs (Num 3) (Some True)) = Num (of_nat 3)
   \<and> length (concat (map (listed (sample ''30 days'' ''3'' ''true''))
        (completion_order (schedule (sample ''30 days'' ''3'' ''true'')) [r1, r3]))) = 7
   \<and> skippedArtifactsCounter (snd (run (sample ''30 days'' ''3'' ''true'') init)) = 3
   \<and> length (skippedRecent (trace (snd (run (sample ''30 days'' ''3'' ''true'') init)))) = 3"
proof -
  let ?e = "sample ''30 days'' ''3'' ''true''"
  let ?c = "sample_configs (Num 3) (Some True)"
  let ?s1 = "snd (getConfigs ?e init)"
  let ?s2 = "snd (tagStage ?e ?c ?s1)"
  let ?s3 = "snd (paginate (listRepoWorkflowRuns ?e) (onRunsPage ?e) ?s2)"
  let ?s4 = "snd (filter_runs ?e ?c (Some [''bbb'']) [r1, r2, r3, r4] ?s3)"
  have "fst (getConfigs ?e init) = Inr ?c"
    by (simp add: sample_getConfigs sample_Number_def sample_yn_def)
  then have h1: "getConfigs ?e init = (Inr ?c, ?s1)"
    by (metis prod.collapse)
  have "fst (tagStage ?e ?c ?s1) = Inr (Some [''bbb''])"
    by code_simp
  then have h2: "tagStage ?e ?c ?s1 = (Inr (Some [''bbb'']), ?s2)"
    by (metis prod.collapse)
  have "fst (paginate (listRepoWorkflowRuns ?e) (onRunsPage ?e) ?s2) = Inr [r1, r2, r3, r4]"
    by code_simp
  then have h3: "paginate (listRepoWorkflowRuns ?e) (onRunsPage ?e) ?s2 = (Inr [r1, r2, r3, r4], ?s3)"
    by (metis prod.collapse)
  have "fst (filter_runs ?e ?c (Some [''bbb'']) [r1, r2, r3, r4] ?s3) = Inr [r1, r3]"
    by code_simp
  then have h4: "filter_runs ?e ?c (Some [''bbb'']) [r1, r2, r3, r4] ?s3 = (Inr [r1, r3], ?s4)"
    by (metis prod.collapse)
  have h5: "skipRecent ?c = Num (of_nat 3)"
    by (simp add: sample_configs_def)
  have l: "length (concat (map (listed ?e) (completion_order (schedule ?e) [r1, r3]))) = 7"
    by code_simp
  from counter_bounded_by_count[OF h1 h2 h3 h4 h5] l
  have "skippedArtifactsCounter (snd (run ?e init)) = 3"
    and "length (skippedRecent (trace (snd (run ?e init)))) = 3"
    by simp_all
  with h1 h5 l show ?thesis by (intro conjI)
qed

theorem fractional_count_is_exceeded:
  "map_sum id skipRecent (fst (getConfigs (sample ''30 days'' ''2.5'' ''true'') init))
     = Inr (Num (5 / 2))
   \<and> skippedArtifactsCounter (snd (run (sample ''30 days'' ''2.5'' ''true'') init)) = 3
   \<and> (5 / 2 :: rat)
       < of_nat (skippedArtifactsCounter (snd (run (sample ''30 days'' ''2.5'' ''true'') init)))
   \<and> length (skippedRecent (trace (snd (run (sample ''30 days'' ''2.5'' ''true'') init)))) = 3"
proof -
  let ?e = "sample ''30 days'' ''2.5'' ''true''"
  have 1: "map_sum id skipRecent (fst (getConfigs ?e init)) = Inr (Num (5 / 2))"
    by (simp add: sample_getConfigs sample_Number_def sample_configs_def)
  have 2: "skippedArtifactsCounter (snd (run ?e init)) = 3"
    by code_simp
  have 3: "(5 / 2 :: rat) < of_nat (skippedArtifactsCounter (snd (run ?e init)))"
    unfolding 2 by simp
  have 4: "length (skippedRecent (trace (snd (run ?e init)))) = 3"
    by code_simp
  from 1 2 3 4 show ?thesis by (intro conjI)
qed

section \<open>The answers to the deletion requests do not matter\<close>

lemma sim_refl: "sim s s"
  by (simp add: sim_def)

lemma deleteCalls_withoutOutcomes: "deleteCalls (withoutOutcomes tr) = deleteCalls tr"
proof (induction tr)
  case Nil
  show ?case by simp
next
  case (Cons ev tr)
  then show ?case by (cases ev) simp_all
qed

lemma Number_js_delete: "Number_js (e\<lparr>deleteArtifact := d\<rparr>) v = Number_js e v"
  by (cases v) simp_all

lemma readInput_delete: "readInput (e\<lparr>deleteArtifact := d\<rparr>) key req = readInput e key req"
  by (simp add: readInput_def)

lemma inputKeys_delete:
  "inputKeys_AGE (e\<lparr>deleteArtifact := d\<rparr>) = inputKeys_AGE e"
  "inputKeys_SKIP_RECENT (e\<lparr>deleteArtifact := d\<rparr>) = inputKeys_SKIP_RECENT e"
  "inputKeys_SKIP_TAGS (e\<lparr>deleteArtifact := d\<rparr>) = inputKeys_SKIP_TAGS e"
  by (simp_all add: inputKeys_AGE_def inputKeys_SKIP_RECENT_def inputKeys_SKIP_TAGS_def)

lemma getConfigs_delete: "getConfigs (e\<lparr>deleteArtifact := d\<rparr>) s = getConfigs e s"
  by (simp add: getConfigs_def readInput_delete inputKeys_delete Number_js_delete Let_def
      cong: option.case_cong sum.case_cong prod.case_cong if_cong)

lemma tagStage_delete: "tagStage (e\<lparr>deleteArtifact := d\<rparr>) cfg s = tagStage e cfg s"
  by (simp add: tagStage_def getTaggedCommits_def)

lemma isTooOld_delete: "isTooOld (e\<lparr>deleteArtifact := d\<rparr>) r s = isTooOld e r s"
  by (simp add: isTooOld_def)

lemma find_isTooOld_delete:
  "find_isTooOld (e\<lparr>deleteArtifact := d\<rparr>) data s = find_isTooOld e data s"
  by (induction data arbitrary: s)
    (simp_all add: isTooOld_delete cong: prod.case_cong if_cong)

lemma onRunsPage_delete: "onRunsPage (e\<lparr>deleteArtifact := d\<rparr>) = onRunsPage e"
  by (intro ext) (simp add: onRunsPage_def find_isTooOld_delete)

lemma keepWorkflowRun_delete:
  "keepWorkflowRun (e\<lparr>deleteArtifact := d\<rparr>) cfg tc r s = keepWorkflowRun e cfg tc r s"
  by (simp add: keepWorkflowRun_def isTooOld_delete cong: sum.case_cong if_cong)

lemma filter_runs_delete:
  "filter_runs (e\<lparr>deleteArtifact := d\<rparr>) cfg tc wrs s = filter_runs e cfg tc wrs s"
  by (induction wrs arbitrary: s)
    (simp_all add: keepWorkflowRun_delete cong: prod.case_cong sum.case_cong)

lemma keepArtifact_sim:
  assumes "sim s t"
  shows "fst (keepArtifact cfg a s) = fst (keepArtifact cfg a t)
       \<and> sim (snd (keepArtifact cfg a s)) (snd (keepArtifact cfg a t))"
  using assms by (simp add: sim_def keepArtifact_def skipRecentArtifact_def Let_def)

lemma filter_artifacts_sim:
  "sim s t \<Longrightarrow>
     fst (filter_artifacts cfg as s) = fst (filter_artifacts cfg as t)
   \<and> sim (snd (filter_artifacts cfg as s)) (snd (filter_artifacts cfg as t))"
proof (induction as arbitrary: s t)
  case Nil
  then show ?case by simp
next
  case (Cons a as)
  note k = keepArtifact_sim[OF Cons.prems, where cfg = cfg and a = a]
  from k Cons.IH[of "snd (keepArtifact cfg a s)" "snd (keepArtifact cfg a t)"]
  show ?case by (simp add: split_beta)
qed

lemma removeArtifact_sim:
  assumes "sim s t"
  shows "sim (removeArtifact (e\<lparr>deleteArtifact := d\<rparr>) a s) (removeArtifact e a t)"
  using assms by (simp add: sim_def removeArtifact_def Let_def split: option.splits)

lemma fold_removeArtifact_sim:
  "sim s t \<Longrightarrow>
     sim (fold (removeArtifact (e\<lparr>deleteArtifact := d\<rparr>)) kept s)
         (fold (removeArtifact e) kept t)"
proof (induction kept arbitrary: s t)
  case Nil
  then show ?case by simp
next
  case (Cons a kept)
  from Cons.IH[OF removeArtifact_sim[OF Cons.prems, where e = e and d = d and a = a]]
  show ?case by simp
qed

lemma onArtifacts_sim:
  assumes "sim s t"
  shows "fst (onArtifacts (e\<lparr>deleteArtifact := d\<rparr>) cfg r s) = fst (onArtifacts e cfg r t)
       \<and> sim (snd (onArtifacts (e\<lparr>deleteArtifact := d\<rparr>) cfg r s))
             (snd (onArtifacts e cfg r t))"
proof (cases "listWorkflowRunArtifacts e (wr_id r)")
  case (Inl err)
  with assms show ?thesis by (simp add: onArtifacts_def)
next
  case (Inr artifacts)
  note f = filter_artifacts_sim[OF assms, where cfg = cfg and as = artifacts]
  from f have k: "fst (filter_artifacts cfg artifacts s) = fst (filter_artifacts cfg artifacts t)"
    by simp
  from f have "sim (snd (filter_artifacts cfg artifacts s)) (snd (filter_artifacts cfg artifacts t))"
    by simp
  from fold_removeArtifact_sim[OF this, where e = e and d = d
      and kept = "fst (filter_artifacts cfg artifacts t)"]
  have "sim (fold (removeArtifact (e\<lparr>deleteArtifact := d\<rparr>))
               (fst (filter_artifacts cfg artifacts t)) (snd (filter_artifacts cfg artifacts s)))
            (fold (removeArtifact e)
               (fst (filter_artifacts cfg artifacts t)) (snd (filter_artifacts cfg artifacts t)))"
    by simp
  with Inr k show ?thesis by (simp add: onArtifacts_def split_beta)
qed

lemma settle_sim:
  "sim s t \<Longrightarrow>
     fst (settle (e\<lparr>deleteArtifact := d\<rparr>) cfg rs s) = fst (settle e cfg rs t)
   \<and> sim (snd (settle (e\<lparr>deleteArtifact := d\<rparr>) cfg rs s)) (snd (settle e cfg rs t))"
proof (induction rs arbitrary: s t)
  case Nil
  then show ?case by simp
next
  case (Cons r rs)
  note o = onArtifacts_sim[OF Cons.prems, where e = e and d = d and cfg = cfg and r = r]
  from o Cons.IH[of "snd (onArtifacts (e\<lparr>deleteArtifact := d\<rparr>) cfg r s)"
      "snd (onArtifacts e cfg r t)"]
  show ?case by (simp add: split_beta split: option.splits)
qed

lemma processRuns_sim:
  "fst (processRuns (e\<lparr>deleteArtifact := d\<rparr>) cfg tc wrs s) = fst (processRuns e cfg tc wrs s)
   \<and> sim (snd (processRuns (e\<lparr>deleteArtifact := d\<rparr>) cfg tc wrs s))
         (snd (processRuns e cfg tc wrs s))"
proof (cases "fst (filter_runs e cfg tc wrs s)")
  case (Inl err)
  then show ?thesis
    by (simp add: processRuns_def filter_runs_delete split_beta sim_refl)
next
  case (Inr survivors)
  from settle_sim[OF sim_refl, where e = e and d = d and cfg = cfg
      and rs = "completion_order (schedule e) survivors"
      and s = "fold examine survivors (snd (filter_runs e cfg tc wrs s))"] Inr
  show ?thesis
    by (simp add: processRuns_def filter_runs_delete split_beta)
qed

lemma run_sim:
  "fst (run (e\<lparr>deleteArtifact := d\<rparr>) s) = fst (run e s)
   \<and> sim (snd (run (e\<lparr>deleteArtifact := d\<rparr>) s)) (snd (run e s))"
proof -
  have "fst (run (e\<lparr>deleteArtifact := d\<rparr>) s) = fst (run e s)
   \<and> sim (snd (run (e\<lparr>deleteArtifact := d\<rparr>) s)) (snd (run e s))"
    unfolding run_def getConfigs_delete tagStage_delete onRunsPage_delete
    using processRuns_sim[where e = e and d = d]
    by (simp add: split_beta sim_refl split: sum.splits)
  then show ?thesis .
qed

lemma main_sim:
  "fst (main (e\<lparr>deleteArtifact := d\<rparr>)) = fst (main e)
   \<and> withoutOutcomes (snd (main (e\<lparr>deleteArtifact := d\<rparr>))) = withoutOutcomes (snd (main e))"
  using run_sim[where e = e and d = d and s = init]
  by (simp add: main_def split_beta sim_def split: option.splits)


lemma fold_removeArtifact_calls:
  "deleteCalls (trace (fold (removeArtifact e) kept s)) =
     deleteCalls (trace s) @ (if devEnv e then [] else map art_id kept)"
  by (induction kept arbitrary: s)
    (simp_all add: removeArtifact_def Let_def split: option.splits)

text \<open>
  C7. Whatever the platform answers to the deletion requests, the outcome of the process
  is the same, the same deletion requests are made in the same order, and the trace is
  the same but for the lines that report the outcome of each request. A request that
  fails is followed by the log line with the artifact and the error, and nothing else.
  Every artifact that passed the filter of its run gets its request, whichever of the
  others fail.
\<close>

theorem deletion_failures_are_swallowed:
  "fst (main (e\<lparr>deleteArtifact := d\<rparr>)) = fst (main e)
   \<and> deleteCalls (snd (main (e\<lparr>deleteArtifact := d\<rparr>))) = deleteCalls (snd (main e))
   \<and> withoutOutcomes (snd (main (e\<lparr>deleteArtifact := d\<rparr>))) = withoutOutcomes (snd (main e))
   \<and> (\<not> devEnv e \<and> deleteArtifact e (art_id a) = Some err \<longrightarrow>
        trace (removeArtifact e a s) =
          trace s @ [LogAboutToRemove (art_id a) (art_name a), CallDeleteArtifact (art_id a),
                     LogDeleteError (art_id a) (art_name a) err])
   \<and> deleteCalls (trace (fold (removeArtifact e) kept s)) =
        deleteCalls (trace s) @ (if devEnv e then [] else map art_id kept)"
proof -
  note m = main_sim[where e = e and d = d]
  from m have 1: "fst (main (e\<lparr>deleteArtifact := d\<rparr>)) = fst (main e)" by simp
  from m have 3: "withoutOutcomes (snd (main (e\<lparr>deleteArtifact := d\<rparr>)))
      = withoutOutcomes (snd (main e))" by simp
  from 3 have "deleteCalls (withoutOutcomes (snd (main (e\<lparr>deleteArtifact := d\<rparr>))))
      = deleteCalls (withoutOutcomes (snd (main e)))" by simp
  then have 2: "deleteCalls (snd (main (e\<lparr>deleteArtifact := d\<rparr>))) = deleteCalls (snd (main e))"
    by (simp only: deleteCalls_withoutOutcomes)
  have 4: "\<not> devEnv e \<and> deleteArtifact e (art_id a) = Some err \<longrightarrow>
        trace (removeArtifact e a s) =
          trace s @ [LogAboutToRemove (art_id a) (art_name a), CallDeleteArtifact (art_id a),
                     LogDeleteError (art_id a) (art_name a) err]"
    by (simp add: removeArtifact_def)
  note 5 = fold_removeArtifact_calls[where e = e and kept = kept and s = s]
  from 1 2 3 4 5 show ?thesis by (intro conjI)
qed

theorem deletion_failures_are_swallowed_witness:
  "\<not> devEnv (sample ''30 days'' ''3'' ''true'')
   \<and> deleteArtifact (sample ''30 days'' ''3'' ''true'') (art_id a14)
       = Some (Err ''HttpError'' ''Server Error'')
   \<and> trace (removeArtifact (sample ''30 days'' ''3'' ''true'') a14 init) =
       [LogAboutToRemove 14 ''dist'', CallDeleteArtifact 14,
        LogDeleteError 14 ''dist'' (Err ''HttpError'' ''Server Error'')]
   \<and> deleteCalls (trace (fold (removeArtifact (sample ''30 days'' ''3'' ''true'')) [a14, a13] init))
       = [14, 13]
   \<and> fst (main (sample ''30 days'' ''3'' ''true'')) = Completed
   \<and> fst (main ((sample ''30 days'' ''3'' ''true'')\<lparr>deleteArtifact := \<lambda>i. None\<rparr>)) = Completed
   \<and> deleteCalls (snd (main (sample ''30 days'' ''3'' ''true''))) = [13, 14]"
proof -
  let ?e = "sample ''30 days'' ''3'' ''true''"
  have h: "\<not> devEnv ?e \<and> deleteArtifact ?e (art_id a14) = Some (Err ''HttpError'' ''Server Error'')"
    by (simp add: sample_def sample_delete_def a14_def)
  note t = deletion_failures_are_swallowed[where e = ?e and d = "\<lambda>i. None" and a = a14
      and err = "Err ''HttpError'' ''Server Error''" and s = init and kept = "[a14, a13]"]
  from t h have 1: "trace (removeArtifact ?e a14 init) =
       [LogAboutToRemove 14 ''dist'', CallDeleteArtifact 14,
        LogDeleteError 14 ''dist'' (Err ''HttpError'' ''Server Error'')]"
    by (simp add: init_def a14_def)
  from t h have 2: "deleteCalls (trace (fold (removeArtifact ?e) [a14, a13] init)) = [14, 13]"
    by (simp add: init_def a14_def a13_def)
  have 3: "fst (main (?e\<lparr>deleteArtifact := \<lambda>i. None\<rparr>)) = Completed"
    by code_simp
  with t have 4: "fst (main ?e) = Completed" by simp
  have 5: "deleteCalls (snd (main (?e\<lparr>deleteArtifact := \<lambda>i. None\<rparr>))) = [13, 14]"
    by code_simp
  with t have 6: "deleteCalls (snd (main ?e)) = [13, 14]" by simp
  from h 1 2 4 3 6 show ?thesis by (intro conjI) simp_all
qed

section \<open>The outcome of the process\<close>

lemma onArtifacts_result:
  "fst (onArtifacts e cfg r s) =
     (case listWorkflowRunArtifacts e (wr_id r) of Inl err \<Rightarrow> Some err | Inr artifacts \<Rightarrow> None)"
  by (simp add: onArtifacts_def split_beta split: sum.splits)

lemma settle_result:
  "fst (settle e cfg rs s) =
     (case listingErrors e rs of [] \<Rightarrow> None | err # errs \<Rightarrow> Some err)"
proof (induction rs arbitrary: s)
  case Nil
  show ?case by (simp add: listingErrors_def)
next
  case (Cons r rs)
  from Cons.IH[of "snd (onArtifacts e cfg r s)"] onArtifacts_result[of e cfg r s]
  show ?case
    by (cases "listWorkflowRunArtifacts e (wr_id r)")
      (simp_all add: listingErrors_def split_beta)
qed

lemma processRuns_result:
  assumes "tagStage e cfg s0 = (Inr taggedCommits, s1)"
  shows "fst (processRuns e cfg taggedCommits wrs s) =
     (case listingErrors e (completion_order (schedule e)
             (spec_survivors e cfg taggedCommits (reads s) wrs)) of
        [] \<Rightarrow> None | err # errs \<Rightarrow> Some err)"
proof -
  from tagStage_cases[OF assms]
  have c: "skipTags cfg = Some True \<longrightarrow> taggedCommits \<noteq> None" by auto
  from filter_runs_spec[OF c, of e wrs s]
  have "fst (filter_runs e cfg taggedCommits wrs s) =
           Inr (spec_survivors e cfg taggedCommits (reads s) wrs)"
    by simp
  then show ?thesis
    by (simp add: processRuns_def split_beta settle_result)
qed

text \<open>
  C8. The process fails, with the string representation of the error, when configuration
  resolution fails, when tag-skip is active and the listing of the tags fails, when a
  request for a page of runs fails, and when the listing of the artifacts of a run that
  passed the run-level filter fails: the error reported is then that of the first such
  listing to complete. In every other case it completes. It exits with zero exactly when
  it completes, and with one when it fails. Nothing else is recorded of an invocation but
  log lines and requests.
\<close>

theorem process_exit:
  "(fst (getConfigs e init) = Inl err \<longrightarrow> fst (main e) = Failed (toString err))
   \<and> (getConfigs e init = (Inr cfg, s1) \<longrightarrow>
        (skipTags cfg = Some True \<and> listTags e = Inl err \<longrightarrow>
           fst (main e) = Failed (toString err))
      \<and> (tagStage e cfg s1 = (Inr taggedCommits, s2) \<longrightarrow>
           (fst (paginate (listRepoWorkflowRuns e) (onRunsPage e) s2) = Inl err \<longrightarrow>
              fst (main e) = Failed (toString err))
         \<and> (paginate (listRepoWorkflowRuns e) (onRunsPage e) s2 = (Inr workflowRuns, s3) \<longrightarrow>
              fst (main e) =
                (case listingErrors e (completion_order (schedule e)
                        (spec_survivors e cfg taggedCommits (reads s3) workflowRuns)) of
                   [] \<Rightarrow> Completed
                 | err' # errs \<Rightarrow> Failed (toString err')))))
   \<and> exit_code (fst (main e)) = (if fst (main e) = Completed then 0 else 1)"
proof (intro conjI impI)
  assume "fst (getConfigs e init) = Inl err"
  then show "fst (main e) = Failed (toString err)"
    by (simp add: main_def run_def split_beta)
next
  assume g: "getConfigs e init = (Inr cfg, s1)"
    and t: "skipTags cfg = Some True \<and> listTags e = Inl err"
  from t have "tagStage e cfg s1 = (Inl err, emit (LogTagsError err) (emit CallListTags s1))"
    by (simp add: tagStage_def getTaggedCommits_def)
  with g show "fst (main e) = Failed (toString err)"
    by (simp add: main_def run_def)
next
  assume g: "getConfigs e init = (Inr cfg, s1)"
    and t: "tagStage e cfg s1 = (Inr taggedCommits, s2)"
    and p: "fst (paginate (listRepoWorkflowRuns e) (onRunsPage e) s2) = Inl err"
  from g t p show "fst (main e) = Failed (toString err)"
    by (simp add: main_def run_def split_beta)
next
  assume g: "getConfigs e init = (Inr cfg, s1)"
    and t: "tagStage e cfg s1 = (Inr taggedCommits, s2)"
    and p: "paginate (listRepoWorkflowRuns e) (onRunsPage e) s2 = (Inr workflowRuns, s3)"
  from g t p processRuns_result[OF t, of workflowRuns s3]
  show "fst (main e) =
          (case listingErrors e (completion_order (schedule e)
                  (spec_survivors e cfg taggedCommits (reads s3) workflowRuns)) of
             [] \<Rightarrow> Completed
           | err' # errs \<Rightarrow> Failed (toString err'))"
    by (simp add: main_def run_def split_beta split: list.splits)
next
  show "exit_code (fst (main e)) = (if fst (main e) = Completed then 0 else 1)"
    by (cases "fst (main e)") simp_all
qed


theorem process_exit_witness:
  "fst (main (sample ''30 days'' ''abc'' ''true''))
     = Failed ''Error: skip-recent option must be type of number.''
   \<and> fst (main ((sample ''30 days'' ''3'' ''true'')
          \<lparr>listTags := Inl (Err ''HttpError'' ''Bad credentials'')\<rparr>))
     = Failed ''HttpError: Bad credentials''
   \<and> fst (main ((sample ''30 days'' ''3'' ''true'')
          \<lparr>listRepoWorkflowRuns := [Inr [r1, r2], Inl (Err ''HttpError'' ''Server Error'')]\<rparr>))
     = Failed ''HttpError: Server Error''
   \<and> fst (main ((sample ''30 days'' ''3'' ''true'')
          \<lparr>listWorkflowRunArtifacts := \<lambda>i. Inl (Err ''HttpError'' ''Not Found'')\<rparr>))
     = Failed ''HttpError: Not Found''
   \<and> fst (main (sample ''30 days'' ''3'' ''true'')) = Completed
   \<and> exit_code (fst (main (sample ''30 days'' ''3'' ''true''))) = 0
   \<and> exit_code (fst (main (sample ''30 days'' ''abc'' ''true''))) = 1"
proof -
  let ?ok = "sample ''30 days'' ''3'' ''true''"
  let ?c = "sample_configs (Num 3) (Some True)"
  let ?bad = "sample ''30 days'' ''abc'' ''true''"
  let ?tag = "?ok\<lparr>listTags := Inl (Err ''HttpError'' ''Bad credentials'')\<rparr>"
  let ?runs = "?ok\<lparr>listRepoWorkflowRuns := [Inr [r1, r2], Inl (Err ''HttpError'' ''Server Error'')]\<rparr>"
  let ?art = "?ok\<lparr>listWorkflowRunArtifacts := \<lambda>i. Inl (Err ''HttpError'' ''Not Found'')\<rparr>"
  have "fst (getConfigs ?bad init) = Inl skipRecent_error"
    by (simp add: sample_getConfigs sample_Number_def)
  with process_exit[where e = ?bad and err = skipRecent_error]
  have 1: "fst (main ?bad) = Failed ''Error: skip-recent option must be type of number.''"
    by (simp add: toString_def skipRecent_error_def)
  have "fst (getConfigs ?tag init) = Inr ?c" by code_simp
  then have g2: "getConfigs ?tag init = (Inr ?c, snd (getConfigs ?tag init))"
    by (metis prod.collapse)
  have t2: "skipTags ?c = Some True \<and> listTags ?tag = Inl (Err ''HttpError'' ''Bad credentials'')"
    by (simp add: sample_configs_def)
  from process_exit[where e = ?tag and err = "Err ''HttpError'' ''Bad credentials''"
      and cfg = ?c and ?s1.0 = "snd (getConfigs ?tag init)"] g2 t2
  have 2: "fst (main ?tag) = Failed ''HttpError: Bad credentials''"
    by (simp add: toString_def)
  have "fst (getConfigs ?runs init) = Inr ?c" by code_simp
  then have g3: "getConfigs ?runs init = (Inr ?c, snd (getConfigs ?runs init))"
    by (metis prod.collapse)
  have "fst (tagStage ?runs ?c (snd (getConfigs ?runs init))) = Inr (Some [''bbb''])"
    by code_simp
  then have t3: "tagStage ?runs ?c (snd (getConfigs ?runs init))
      = (Inr (Some [''bbb'']), snd (tagStage ?runs ?c (snd (getConfigs ?runs init))))"
    by (metis prod.collapse)
  have p3: "fst (paginate (listRepoWorkflowRuns ?runs) (onRunsPage ?runs)
      (snd (tagStage ?runs ?c (snd (getConfigs ?runs init))))) = Inl (Err ''HttpError'' ''Server Error'')"
    by code_simp
  from process_exit[where e = ?runs and err = "Err ''HttpError'' ''Server Error''"
      and cfg = ?c and ?s1.0 = "snd (getConfigs ?runs init)"
      and taggedCommits = "Some [''bbb'']"
      and ?s2.0 = "snd (tagStage ?runs ?c (snd (getConfigs ?runs init)))"] g3 t3 p3
  have 3: "fst (main ?runs) = Failed ''HttpError: Server Error''"
    by (simp add: toString_def)
  have "fst (getConfigs ?art init) = Inr ?c" by code_simp
  then have g4: "getConfigs ?art init = (Inr ?c, snd (getConfigs ?art init))"
    by (metis prod.collapse)
  have "fst (tagStage ?art ?c (snd (getConfigs ?art init))) = Inr (Some [''bbb''])"
    by code_simp
  then have t4: "tagStage ?art ?c (snd (getConfigs ?art init))
      = (Inr (Some [''bbb'']), snd (tagStage ?art ?c (snd (getConfigs ?art init))))"
    by (metis prod.collapse)
  let ?s2 = "snd (tagStage ?art ?c (snd (getConfigs ?art init)))"
  have "fst (paginate (listRepoWorkflowRuns ?art) (onRunsPage ?art) ?s2) = Inr [r1, r2, r3, r4]"
    by code_simp
  then have p4: "paginate (listRepoWorkflowRuns ?art) (onRunsPage ?art) ?s2
      = (Inr [r1, r2, r3, r4], snd (paginate (listRepoWorkflowRuns ?art) (onRunsPage ?art) ?s2))"
    by (metis prod.collapse)
  have l4: "listingErrors ?art (completion_order (schedule ?art)
      (spec_survivors ?art ?c (Some [''bbb''])
        (reads (snd (paginate (listRepoWorkflowRuns ?art) (onRunsPage ?art) ?s2)))
        [r1, r2, r3, r4]))
      = [Err ''HttpError'' ''Not Found'', Err ''HttpError'' ''Not Found'']"
    by code_simp
  from process_exit[where e = ?art and cfg = ?c and ?s1.0 = "snd (getConfigs ?art init)"
      and taggedCommits = "Some [''bbb'']" and ?s2.0 = ?s2
      and workflowRuns = "[r1, r2, r3, r4]"
      and ?s3.0 = "snd (paginate (listRepoWorkflowRuns ?art) (onRunsPage ?art) ?s2)"] g4 t4 p4
  have "fst (main ?art) =
          (case listingErrors ?art (completion_order (schedule ?art)
                  (spec_survivors ?art ?c (Some [''bbb''])
                    (reads (snd (paginate (listRepoWorkflowRuns ?art) (onRunsPage ?art) ?s2)))
                    [r1, r2, r3, r4])) of
             [] \<Rightarrow> Completed
           | err' # errs \<Rightarrow> Failed (toString err'))"
    by blast
  then have 4: "fst (main ?art) = Failed ''HttpError: Not Found''"
    unfolding l4 by (simp add: toString_def)
  have 5: "fst (main ?ok) = Completed" by code_simp
  from process_exit[where e = ?ok] 5 have 6: "exit_code (fst (main ?ok)) = 0" by simp
  from process_exit[where e = ?bad] 1 have 7: "exit_code (fst (main ?bad)) = 1" by simp
  from 1 2 3 4 5 6 7 show ?thesis by (intro conjI)
qed

section \<open>Selecting the artifacts to delete\<close>

lemma gt_counter_mono: "\<not> gt_counter n c \<Longrightarrow> c \<le> c' \<Longrightarrow> \<not> gt_counter n c'"
  by (cases n) auto

lemma filter_artifacts_rule_off:
  "\<not> skipRecentArtifact cfg s \<Longrightarrow>
     fst (filter_artifacts cfg as s) = filter (\<lambda>a. isBefore (art_created_at a) (maxAge cfg)) as
   \<and> skippedArtifactsCounter (snd (filter_artifacts cfg as s)) = skippedArtifactsCounter s
   \<and> skippedRecent (trace (snd (filter_artifacts cfg as s))) = skippedRecent (trace s)"
proof (induction as arbitrary: s)
  case Nil
  show ?case by simp
next
  case (Cons a as)
  let ?s1 = "snd (keepArtifact cfg a s)"
  from Cons.prems have k: "fst (keepArtifact cfg a s) = isBefore (art_created_at a) (maxAge cfg)"
    "skippedArtifactsCounter ?s1 = skippedArtifactsCounter s"
    "skippedRecent (trace ?s1) = skippedRecent (trace s)"
    by (simp_all add: keepArtifact_def Let_def)
  from Cons.prems k(2) have "\<not> skipRecentArtifact cfg ?s1"
    by (simp add: skipRecentArtifact_def)
  from Cons.IH[OF this] k show ?case by (simp add: split_beta)
qed

lemma filter_artifacts_counter_mono:
  "skippedArtifactsCounter s \<le> skippedArtifactsCounter (snd (filter_artifacts cfg as s))"
proof (induction as arbitrary: s)
  case Nil
  show ?case by simp
next
  case (Cons a as)
  have "skippedArtifactsCounter s \<le> skippedArtifactsCounter (snd (keepArtifact cfg a s))"
    by (simp add: keepArtifact_counter)
  with Cons.IH[of "snd (keepArtifact cfg a s)"] show ?case
    by (simp add: split_beta)
qed

lemma filter_artifacts_selects:
  "skippedRecent (trace (snd (filter_artifacts cfg as s))) =
     skippedRecent (trace s)
       @ map ident (take (skippedArtifactsCounter (snd (filter_artifacts cfg as s))
                            - skippedArtifactsCounter s) as)
   \<and> fst (filter_artifacts cfg as s) =
       filter (\<lambda>a. isBefore (art_created_at a) (maxAge cfg))
         (drop (skippedArtifactsCounter (snd (filter_artifacts cfg as s))
                  - skippedArtifactsCounter s) as)"
proof (induction as arbitrary: s)
  case Nil
  show ?case by simp
next
  case (Cons a as)
  let ?s1 = "snd (keepArtifact cfg a s)"
  let ?s2 = "snd (filter_artifacts cfg as ?s1)"
  show ?case
  proof (cases "skipRecentArtifact cfg s")
    case True
    then have k: "fst (keepArtifact cfg a s) = False"
      "skippedArtifactsCounter ?s1 = Suc (skippedArtifactsCounter s)"
      "skippedRecent (trace ?s1) = skippedRecent (trace s) @ [ident a]"
      by (simp_all add: keepArtifact_def ident_def)
    from filter_artifacts_counter_mono[of ?s1 cfg as] k(2)
    have d: "skippedArtifactsCounter ?s2 - skippedArtifactsCounter s
               = Suc (skippedArtifactsCounter ?s2 - skippedArtifactsCounter ?s1)"
      by simp
    from Cons.IH[of ?s1] k d show ?thesis
      by (simp add: split_beta)
  next
    case False
    from filter_artifacts_rule_off[OF False, of "a # as"] show ?thesis
      by simp
  qed
qed

lemma keepArtifact_no_requests:
  "removals (trace (snd (keepArtifact cfg a s))) = removals (trace s)"
  "deleteCalls (trace (snd (keepArtifact cfg a s))) = deleteCalls (trace s)"
  by (simp_all add: keepArtifact_def Let_def)

lemma filter_artifacts_no_requests:
  "removals (trace (snd (filter_artifacts cfg as s))) = removals (trace s)
   \<and> deleteCalls (trace (snd (filter_artifacts cfg as s))) = deleteCalls (trace s)"
proof (induction as arbitrary: s)
  case Nil
  show ?case by simp
next
  case (Cons a as)
  from Cons.IH[of "snd (keepArtifact cfg a s)"] keepArtifact_no_requests[of cfg a s]
  show ?case by (simp add: split_beta)
qed

lemma isBefore_strict:
  "isBefore a b = (case (a, b) of (Some c, Some m) \<Rightarrow> c < m | (x, y) \<Rightarrow> False)"
  by (simp add: isBefore_def split: option.splits)

text \<open>
  C2. An artifact that the recent-count rule does not exclude is selected for deletion
  exactly when its creation timestamp is strictly before the cutoff; an artifact created
  at the cutoff is kept. This holds of the filter's decision on one artifact, and of the
  selection made from a whole listing: the artifacts that the rule excludes are the first
  few of the listing, as many as the counter has advanced; of the others, those created
  strictly before the cutoff are selected, and no other; and the artifacts selected are
  those handed to the removal step, whose deletion is requested.
\<close>

theorem age_exclusion_is_strict:
  "(\<not> skipRecentArtifact cfg s \<longrightarrow>
      (fst (keepArtifact cfg a s) \<longleftrightarrow>
         (\<exists>c m. art_created_at a = Some c \<and> maxAge cfg = Some m \<and> c < m))
      \<and> (art_created_at a = maxAge cfg \<longrightarrow> \<not> fst (keepArtifact cfg a s)))
   \<and> skippedRecent (trace (snd (filter_artifacts cfg as s))) =
        skippedRecent (trace s)
          @ map ident (take (skippedArtifactsCounter (snd (filter_artifacts cfg as s))
                               - skippedArtifactsCounter s) as)
   \<and> fst (filter_artifacts cfg as s) =
        filter (\<lambda>a. case (art_created_at a, maxAge cfg) of
                       (Some c, Some m) \<Rightarrow> c < m | (x, y) \<Rightarrow> False)
          (drop (skippedArtifactsCounter (snd (filter_artifacts cfg as s))
                   - skippedArtifactsCounter s) as)
   \<and> (listWorkflowRunArtifacts e (wr_id r) = Inr as \<longrightarrow>
        removals (trace (snd (onArtifacts e cfg r s))) =
          removals (trace s) @ map ident (fst (filter_artifacts cfg as s))
        \<and> deleteCalls (trace (snd (onArtifacts e cfg r s))) =
          deleteCalls (trace s)
            @ (if devEnv e then [] else map art_id (fst (filter_artifacts cfg as s))))"
proof (intro conjI impI)
  assume "\<not> skipRecentArtifact cfg s"
  then show "fst (keepArtifact cfg a s) \<longleftrightarrow>
         (\<exists>c m. art_created_at a = Some c \<and> maxAge cfg = Some m \<and> c < m)"
    by (auto simp: keepArtifact_def Let_def isBefore_iff)
next
  assume "\<not> skipRecentArtifact cfg s" and "art_created_at a = maxAge cfg"
  then show "\<not> fst (keepArtifact cfg a s)"
    by (auto simp: keepArtifact_def Let_def isBefore_iff)
next
  from filter_artifacts_selects[of cfg as s]
  show "skippedRecent (trace (snd (filter_artifacts cfg as s))) =
        skippedRecent (trace s)
          @ map ident (take (skippedArtifactsCounter (snd (filter_artifacts cfg as s))
                               - skippedArtifactsCounter s) as)"
    by simp
next
  from filter_artifacts_selects[of cfg as s]
  show "fst (filter_artifacts cfg as s) =
        filter (\<lambda>a. case (art_created_at a, maxAge cfg) of
                       (Some c, Some m) \<Rightarrow> c < m | (x, y) \<Rightarrow> False)
          (drop (skippedArtifactsCounter (snd (filter_artifacts cfg as s))
                   - skippedArtifactsCounter s) as)"
    by (simp only: isBefore_strict)
next
  assume l: "listWorkflowRunArtifacts e (wr_id r) = Inr as"
  then have o: "snd (onArtifacts e cfg r s) =
      fold (removeArtifact e) (fst (filter_artifacts cfg as s)) (snd (filter_artifacts cfg as s))"
    by (simp add: onArtifacts_def split_beta)
  have q: "removals (trace (snd (filter_artifacts cfg as s))) = removals (trace s)"
    "deleteCalls (trace (snd (filter_artifacts cfg as s))) = deleteCalls (trace s)"
    using filter_artifacts_no_requests[of cfg as s] by simp_all
  show "removals (trace (snd (onArtifacts e cfg r s))) =
          removals (trace s) @ map ident (fst (filter_artifacts cfg as s))"
    unfolding o by (simp add: fold_removeArtifact_facts q)
  show "deleteCalls (trace (snd (onArtifacts e cfg r s))) =
          deleteCalls (trace s)
            @ (if devEnv e then [] else map art_id (fst (filter_artifacts cfg as s)))"
    unfolding o by (simp add: fold_removeArtifact_calls q)
qed


theorem age_exclusion_is_strict_witness:
  "\<not> skipRecentArtifact (sample_configs (Num 0) None) init
   \<and> art_created_at (a12\<lparr>art_created_at := Some (now0 + 1 - 30 * day)\<rparr>)
       = maxAge (sample_configs (Num 0) None)
   \<and> \<not> fst (keepArtifact (sample_configs (Num 0) None)
              (a12\<lparr>art_created_at := Some (now0 + 1 - 30 * day)\<rparr>) init)
   \<and> fst (keepArtifact (sample_configs (Num 0) None)
              (a13\<lparr>art_created_at := Some (now0 - 30 * day)\<rparr>) init)
   \<and> skippedRecent (trace (snd (filter_artifacts (sample_configs (Num 1) None)
         [a11, a12\<lparr>art_created_at := Some (now0 + 1 - 30 * day)\<rparr>,
          a13\<lparr>art_created_at := Some (now0 - 30 * day)\<rparr>, a15] init))) = [(11, ''build'')]
   \<and> fst (filter_artifacts (sample_configs (Num 1) None)
         [a11, a12\<lparr>art_created_at := Some (now0 + 1 - 30 * day)\<rparr>,
          a13\<lparr>art_created_at := Some (now0 - 30 * day)\<rparr>, a15] init)
       = [a13\<lparr>art_created_at := Some (now0 - 30 * day)\<rparr>]
   \<and> deleteCalls (trace (snd (onArtifacts
         ((sample ''30 days'' ''3'' [])\<lparr>listWorkflowRunArtifacts :=
            \<lambda>i. Inr [a11, a12\<lparr>art_created_at := Some (now0 + 1 - 30 * day)\<rparr>,
                       a13\<lparr>art_created_at := Some (now0 - 30 * day)\<rparr>, a15]\<rparr>)
         (sample_configs (Num 1) None) r1 init))) = [13]"
proof -
  let ?c0 = "sample_configs (Num 0) None"
  let ?c1 = "sample_configs (Num 1) None"
  let ?eq = "a12\<lparr>art_created_at := Some (now0 + 1 - 30 * day)\<rparr>"
  let ?old = "a13\<lparr>art_created_at := Some (now0 - 30 * day)\<rparr>"
  let ?as = "[a11, ?eq, ?old, a15]"
  let ?e = "(sample ''30 days'' ''3'' [])\<lparr>listWorkflowRunArtifacts := \<lambda>i. Inr ?as\<rparr>"
  have h: "\<not> skipRecentArtifact ?c0 init"
    by (simp add: skipRecentArtifact_def sample_configs_def)
  have q: "art_created_at ?eq = maxAge ?c0"
    by (simp add: sample_configs_def)
  from age_exclusion_is_strict[where cfg = ?c0 and s = init and a = ?eq] h q
  have 1: "\<not> fst (keepArtifact ?c0 ?eq init)" by blast
  from age_exclusion_is_strict[where cfg = ?c0 and s = init and a = ?old] h
  have 2: "fst (keepArtifact ?c0 ?old init)"
    by (simp add: sample_configs_def)
  have k: "skippedArtifactsCounter (snd (filter_artifacts ?c1 ?as init)) = 1"
    by code_simp
  have l: "listWorkflowRunArtifacts ?e (wr_id r1) = Inr ?as" by simp
  note t = age_exclusion_is_strict[where cfg = ?c1 and s = init and as = ?as and e = ?e
      and r = r1]
  from t k have 3: "skippedRecent (trace (snd (filter_artifacts ?c1 ?as init))) = [(11, ''build'')]"
    by (simp add: init_def ident_def a11_def)
  from t k have 4: "fst (filter_artifacts ?c1 ?as init) = [?old]"
    by (simp add: init_def sample_configs_def a12_def a13_def a15_def day_def now0_def)
  from t l 4 have 5: "deleteCalls (trace (snd (onArtifacts ?e ?c1 r1 init))) = [13]"
    by (simp add: init_def sample_def a13_def)
  from h q 1 2 3 4 5 show ?thesis by (intro conjI)
qed

end
